theory Spec2Isabelle
  imports Main "HOL-Library.AList"
begin

section \<open>JavaScript values\<close>

text \<open>
  The values that reach the tree: keys, stored values and the fields of the object handed
  to \<open>find\<close>. A JavaScript number is modelled by an integer (the spec's key domain:
  the integers a double holds exactly; NaN, infinities and fractions are outside the
  model), a string by the list of its characters, each one of the 256 of type \<open>char\<close>
  (code units above 255 are outside the model), an object by its identity alone, since
  the tree never reads a field of a stored object.
\<close>

datatype jsval = VUndefined | VNull | VBool bool | VNum int | VStr string | VObj nat

datatype jstype = TUndefined | TObject | TBoolean | TNumber | TString

fun typeof :: "jsval \<Rightarrow> jstype" where
  "typeof VUndefined = TUndefined"
| "typeof VNull = TObject"
| "typeof (VBool b) = TBoolean"
| "typeof (VNum n) = TNumber"
| "typeof (VStr s) = TString"
| "typeof (VObj a) = TObject"

text \<open>Truthiness, as \<open>x || false\<close> and \<open>!!x\<close> test it.\<close>

fun truthy :: "jsval \<Rightarrow> bool" where
  "truthy VUndefined = False"
| "truthy VNull = False"
| "truthy (VBool b) = b"
| "truthy (VNum n) = (n \<noteq> 0)"
| "truthy (VStr s) = (s \<noteq> [])"
| "truthy (VObj a) = True"

text \<open>The test \<open>x == null\<close>: true of \<open>null\<close> and of \<open>undefined\<close>.\<close>

fun isNullish :: "jsval \<Rightarrow> bool" where
  "isNullish VUndefined = True"
| "isNullish VNull = True"
| "isNullish v = False"

text \<open>
  Arithmetic on numbers is IEEE 754 double arithmetic: the exact result, rounded to the
  nearest double, ties to the even significand. \<open>roundToDouble\<close> is that rounding on
  integers: an integer of at most 53 bits is a double; a longer one is rounded to a
  multiple of the power of two that leaves it 53 bits. Overflow to Infinity (from
  \<open>2^1024\<close>) is not modelled; the sums and the product of \<open>decodeStrKey\<close>, the
  only large numbers the source computes, stay far below it.
\<close>

function bitLength :: "int \<Rightarrow> nat" where
  "bitLength n = (if n \<le> 0 then 0 else Suc (bitLength (n div 2)))"
  by pat_completeness auto
termination
  by (relation "measure nat") auto

declare bitLength.simps [simp del]

definition roundToDouble :: "int \<Rightarrow> int" where
  "roundToDouble x =
     (if bitLength \<bar>x\<bar> \<le> 53 then x
      else (let q = 2 ^ (bitLength \<bar>x\<bar> - 53);
                m = \<bar>x\<bar> div q;
                r = \<bar>x\<bar> mod q
            in sgn x * ((if 2 * r > q \<or> (2 * r = q \<and> odd m) then m + 1 else m) * q)))"

text \<open>
  The conversion of a value to a property name (an object's keys are strings). For a
  number it is the decimal numeral, which is what JavaScript prints for a safe integer
  (one of magnitude below \<open>2^53\<close>); beyond, JavaScript prints the shortest digits that
  round to the number, and an exponent from \<open>1e21\<close>. \<open>safeNumber\<close> holds of the
  values whose property name the model has exactly: everything but a number that is not
  a safe integer. The statements that compare the property names of different values
  assume it. An object is a plain one, whose property name is \<open>[object Object]\<close>.
\<close>

definition digitChar :: "nat \<Rightarrow> char" where
  "digitChar d =
     (if d = 0 then CHR ''0'' else if d = 1 then CHR ''1'' else if d = 2 then CHR ''2''
      else if d = 3 then CHR ''3'' else if d = 4 then CHR ''4'' else if d = 5 then CHR ''5''
      else if d = 6 then CHR ''6'' else if d = 7 then CHR ''7'' else if d = 8 then CHR ''8''
      else CHR ''9'')"

fun digitsOf :: "nat \<Rightarrow> string" where
  "digitsOf n = (if n < 10 then [digitChar n] else digitsOf (n div 10) @ [digitChar (n mod 10)])"

definition numberToString :: "int \<Rightarrow> string" where
  "numberToString i = (if i < 0 then CHR ''-'' # digitsOf (nat (- i)) else digitsOf (nat i))"

fun safeNumber :: "jsval \<Rightarrow> bool" where
  "safeNumber (VNum n) = (\<bar>n\<bar> < 2 ^ 53)"
| "safeNumber v = True"

fun toPropertyKey :: "jsval \<Rightarrow> string" where
  "toPropertyKey VUndefined = ''undefined''"
| "toPropertyKey VNull = ''null''"
| "toPropertyKey (VBool b) = (if b then ''true'' else ''false'')"
| "toPropertyKey (VNum n) = numberToString n"
| "toPropertyKey (VStr s) = s"
| "toPropertyKey (VObj a) = ''[object Object]''"

section \<open>Errors\<close>

text \<open>
  Every \<open>throw\<close> of the source and every runtime TypeError (a property read on
  \<open>null\<close> or \<open>undefined\<close>, a call of something that is not a function) is a value.
  An error ends the call: the half-mutated structure an exception leaves behind is not
  modelled. \<open>SharedRoots\<close> is not an exception of the source; see \<open>removeString\<close>.
\<close>

datatype error =
    ValueCanNotBeNull
  | KeyTooLong
  | KeyAndValueNotFound
  | InvalidKey
  | TypeMismatch
  | TypeError
  | SharedRoots

section \<open>RedBlackNode\<close>

text \<open>
  A node reference is \<open>Null\<close> or a node owning its two children. \<open>left\<close> and
  \<open>right\<close> of \<open>Null\<close> are fixed to \<open>Null\<close> only so that a guarded read
  (\<open>isRed(node.left) && isRed(node.left.left)\<close>) is a term; where the source reads a
  field of \<open>null\<close> unguarded, the model returns \<open>TypeError\<close>.
\<close>

datatype tree =
    Null
  | Node (left: tree) (key: jsval) (value': jsval) (color: bool) (size': nat) (right: tree)
where
  "left Null = Null"
| "right Null = Null"

abbreviation (input) RED :: bool where "RED \<equiv> True"
abbreviation (input) BLACK :: bool where "BLACK \<equiv> False"

definition STRING_ENCODING_LENGTH :: nat where
  "STRING_ENCODING_LENGTH = 8"

definition STRING_SEGMENT :: int where
  "STRING_SEGMENT = 58"

definition STRING_COMBINATION :: int where
  "STRING_COMBINATION = STRING_SEGMENT ^ STRING_ENCODING_LENGTH"

text \<open>
  The constructor: an over-long string key is rejected, an omitted (\<open>undefined\<close>) key or
  value takes the default \<open>null\<close>. Probe nodes are built with colour \<open>null\<close> in the
  source; their colour is never read, and the model passes \<open>BLACK\<close>.
\<close>

definition RedBlackNode :: "jsval \<Rightarrow> jsval \<Rightarrow> bool \<Rightarrow> nat \<Rightarrow> error + tree" where
  "RedBlackNode k v c s =
     (case k of
        VStr str \<Rightarrow>
          if length str > STRING_ENCODING_LENGTH then Inl KeyTooLong
          else Inr (Node Null k (if v = VUndefined then VNull else v) c s Null)
      | _ \<Rightarrow>
          Inr (Node Null (if k = VUndefined then VNull else k)
                 (if v = VUndefined then VNull else v) c s Null))"

text \<open>
  \<open>decodeStrKey\<close>: the first character's code (less 64) times \<open>STRING_COMBINATION\<close>,
  added to the sum of the other characters' codes (each less 64), which \<open>reduce\<close>
  accumulates from left to right starting at the first of them. \<open>None\<close> is NaN, the
  result on the empty string, whose \<open>charCodeAt(0)\<close> is NaN. Every sum and the product
  are rounded as doubles: from the first character's code 135 on, the product exceeds
  \<open>2^53\<close> and the sum of the other characters is partly or wholly rounded away. A
  character is one of the 256 of type \<open>char\<close>.
\<close>

definition charCode :: "char \<Rightarrow> int" where
  "charCode c = int (of_char c)"

fun decodeStrKey :: "string \<Rightarrow> int option" where
  "decodeStrKey [] = None"
| "decodeStrKey (c # cs) =
     Some (roundToDouble
       ((if length (c # cs) > 1
         then (case map (\<lambda>ch. charCode ch - 64) cs of
                 [] \<Rightarrow> 0
               | x # xs \<Rightarrow> foldl (\<lambda>current previous. roundToDouble (current + previous)) x xs)
         else 0)
        + roundToDouble ((charCode c - 64) * STRING_COMBINATION)))"

text \<open>Comparison of two numbers that may be NaN: \<open>>\<close> and \<open><\<close> are both false on NaN.\<close>

fun compareNumbers :: "int option \<Rightarrow> int option \<Rightarrow> int" where
  "compareNumbers (Some a) (Some b) = (if a > b then 1 else if a < b then - 1 else 0)"
| "compareNumbers _ _ = 0"

text \<open>\<open>compareTo\<close>, on the keys of the two nodes.\<close>

fun compareTo :: "jsval \<Rightarrow> jsval \<Rightarrow> error + int" where
  "compareTo (VNum a) (VNum b) = Inr (if a > b then 1 else if a < b then - 1 else 0)"
| "compareTo (VStr a) (VStr b) = Inr (compareNumbers (decodeStrKey a) (decodeStrKey b))"
| "compareTo _ _ = Inl TypeMismatch"

section \<open>RedBlackTree\<close>

text \<open>
  \<open>invertedIndex\<close> is a plain object whose own properties hold Sets of keys: a list of
  property names with their Sets, read by name only. A Set is the list of its elements in
  insertion order. A property read that finds no own property falls through to
  \<open>Object.prototype\<close>, whose members are neither \<open>undefined\<close> nor Sets.
\<close>

type_synonym index = "(string \<times> jsval list) list"

record rbt =
  numberRoot :: tree
  stringRoot :: tree
  invertedIndex :: index

definition emptyTree :: rbt where
  "emptyTree = \<lparr>numberRoot = Null, stringRoot = Null, invertedIndex = []\<rparr>"

definition objectPrototypeNames :: "string list" where
  "objectPrototypeNames =
     [''constructor'', ''__defineGetter__'', ''__defineSetter__'', ''hasOwnProperty'',
      ''__lookupGetter__'', ''__lookupSetter__'', ''isPrototypeOf'',
      ''propertyIsEnumerable'', ''toString'', ''valueOf'', ''__proto__'',
      ''toLocaleString'']"

datatype property = PUndefined | PSet "jsval list" | PInherited string

definition getProperty :: "index \<Rightarrow> string \<Rightarrow> property" where
  "getProperty idx name =
     (case map_of idx name of
        Some ks \<Rightarrow> PSet ks
      | None \<Rightarrow> if name \<in> set objectPrototypeNames then PInherited name else PUndefined)"

definition setAdd :: "jsval \<Rightarrow> jsval list \<Rightarrow> jsval list" where
  "setAdd k ks = (if k \<in> set ks then ks else ks @ [k])"

definition setDelete :: "jsval \<Rightarrow> jsval list \<Rightarrow> jsval list" where
  "setDelete k ks = filter (\<lambda>x. x \<noteq> k) ks"

text \<open>
  The index update of \<open>putRecv\<close>: a new Set when the property reads \<open>undefined\<close>,
  \<open>.add\<close> otherwise, which is a TypeError on an inherited member.
\<close>

definition addToIndex :: "index \<Rightarrow> jsval \<Rightarrow> jsval \<Rightarrow> error + index" where
  "addToIndex idx v k =
     (case getProperty idx (toPropertyKey v) of
        PUndefined \<Rightarrow> Inr (AList.update (toPropertyKey v) [k] idx)
      | PSet ks \<Rightarrow> Inr (AList.update (toPropertyKey v) (setAdd k ks) idx)
      | PInherited n \<Rightarrow> Inl TypeError)"

fun isRed :: "tree \<Rightarrow> bool" where
  "isRed Null = False"
| "isRed (Node l k v c s r) = (c = RED)"

fun sizeAt :: "tree \<Rightarrow> nat" where
  "sizeAt Null = 0"
| "sizeAt (Node l k v c s r) = s"

definition isEmpty :: "rbt \<Rightarrow> bool" where
  "isEmpty t = (numberRoot t = Null \<and> stringRoot t = Null)"

definition size_rbt :: "rbt \<Rightarrow> nat" where
  "size_rbt t =
     (if isEmpty t then 0
      else if numberRoot t = Null then sizeAt (stringRoot t)
      else if stringRoot t = Null then sizeAt (numberRoot t)
      else sizeAt (numberRoot t) + sizeAt (stringRoot t))"

subsection \<open>Rotations and colour flips\<close>

fun rotateLeft :: "tree \<Rightarrow> error + tree" where
  "rotateLeft (Node l k v c s (Node rl rk rv rc rs rr)) =
     Inr (Node (Node l k v RED (sizeAt l + sizeAt rl + 1) rl) rk rv c s rr)"
| "rotateLeft _ = Inl TypeError"

fun rotateRight :: "tree \<Rightarrow> error + tree" where
  "rotateRight (Node (Node ll lk lv lc ls lr) k v c s r) =
     Inr (Node ll lk lv c s (Node lr k v RED (sizeAt lr + sizeAt r + 1) r))"
| "rotateRight _ = Inl TypeError"

fun flipColors :: "tree \<Rightarrow> error + tree" where
  "flipColors (Node (Node ll lk lv lc ls lr) k v c s (Node rl rk rv rc rs rr)) =
     Inr (Node (Node ll lk lv (\<not> lc) ls lr) k v (\<not> c) s (Node rl rk rv (\<not> rc) rs rr))"
| "flipColors _ = Inl TypeError"

fun setColor :: "tree \<Rightarrow> bool \<Rightarrow> error + tree" where
  "setColor Null c = Inl TypeError"
| "setColor (Node l k v c' s r) c = Inr (Node l k v c s r)"

fun updateSize :: "tree \<Rightarrow> error + tree" where
  "updateSize Null = Inl TypeError"
| "updateSize (Node l k v c s r) = Inr (Node l k v c (sizeAt l + sizeAt r + 1) r)"

subsection \<open>fixRightLining\<close>

text \<open>
  The source keeps two variables: \<open>fixedNode\<close>, which it returns, and \<open>node\<close>, the
  object it was called with, on which all three tests are made and which the colour flip
  mutates. After a rotation \<open>node\<close> is no longer the root of the subtree but a child of
  \<open>fixedNode\<close>; \<open>place\<close> records where the object \<open>node\<close> sits in \<open>fixedNode\<close>.
  A right rotation of \<open>node\<close> makes its old left child the new \<open>fixedNode\<close>, whatever
  \<open>fixedNode\<close> was before.
\<close>

datatype place = Self | LeftChild | RightChild

fun nodeAt :: "place \<Rightarrow> tree \<Rightarrow> tree" where
  "nodeAt Self t = t"
| "nodeAt LeftChild t = left t"
| "nodeAt RightChild t = right t"

fun storeAt :: "place \<Rightarrow> tree \<Rightarrow> tree \<Rightarrow> tree" where
  "storeAt Self t n = n"
| "storeAt LeftChild (Node l k v c s r) n = Node n k v c s r"
| "storeAt RightChild (Node l k v c s r) n = Node l k v c s n"
| "storeAt p Null n = Null"

definition fixRightLining :: "tree \<Rightarrow> error + tree" where
  "fixRightLining node =
     (case node of
        Null \<Rightarrow> Inl TypeError
      | Node l k v c s r \<Rightarrow>
         (case (if isRed (right node) \<and> \<not> isRed (left node)
                then (case rotateLeft node of Inl e \<Rightarrow> Inl e | Inr x \<Rightarrow> Inr (x, LeftChild))
                else Inr (node, Self)) of
            Inl e \<Rightarrow> Inl e
          | Inr (fixed1, p1) \<Rightarrow>
             (case (if isRed (left (nodeAt p1 fixed1)) \<and> isRed (left (left (nodeAt p1 fixed1)))
                    then (case rotateRight (nodeAt p1 fixed1) of
                            Inl e \<Rightarrow> Inl e
                          | Inr x \<Rightarrow> Inr (x, RightChild))
                    else Inr (fixed1, p1)) of
                Inl e \<Rightarrow> Inl e
              | Inr (fixed2, p2) \<Rightarrow>
                 (if isRed (left (nodeAt p2 fixed2)) \<and> isRed (right (nodeAt p2 fixed2))
                  then (case flipColors (nodeAt p2 fixed2) of
                          Inl e \<Rightarrow> Inl e
                        | Inr n \<Rightarrow> Inr (storeAt p2 fixed2 n))
                  else Inr fixed2))))"

subsection \<open>put\<close>

text \<open>
  \<open>putRecv idx node newNode\<close> returns the new subtree root and the index. The new node
  is \<open>newNode\<close> itself; its key and value are read from it on the way.
\<close>

fun putRecv :: "index \<Rightarrow> tree \<Rightarrow> tree \<Rightarrow> error + (tree \<times> index)" where
  "putRecv idx Null newNode =
     (case addToIndex idx (value' newNode) (key newNode) of
        Inl e \<Rightarrow> Inl e
      | Inr idx' \<Rightarrow> Inr (newNode, idx'))"
| "putRecv idx (Node l k v c s r) newNode =
     (case compareTo (key newNode) k of
        Inl e \<Rightarrow> Inl e
      | Inr cmp \<Rightarrow>
         (case (if cmp < 0 then
                  (case putRecv idx l newNode of
                     Inl e \<Rightarrow> Inl e
                   | Inr (l', idx') \<Rightarrow> Inr (Node l' k v c s r, idx'))
                else if cmp > 0 then
                  (case putRecv idx r newNode of
                     Inl e \<Rightarrow> Inl e
                   | Inr (r', idx') \<Rightarrow> Inr (Node l k v c s r', idx'))
                else Inr (Node l k (value' newNode) c s r, idx)) of
            Inl e \<Rightarrow> Inl e
          | Inr (nextNode, idx1) \<Rightarrow>
             (case fixRightLining nextNode of
                Inl e \<Rightarrow> Inl e
              | Inr fixed \<Rightarrow>
                 (case updateSize fixed of
                    Inl e \<Rightarrow> Inl e
                  | Inr sized \<Rightarrow>
                     (case addToIndex idx1 (value' newNode) (key newNode) of
                        Inl e \<Rightarrow> Inl e
                      | Inr idx2 \<Rightarrow> Inr (sized, idx2))))))"

text \<open>
  \<open>put now t key value\<close>; \<open>now\<close> is what \<open>Date.now()\<close> returns. The routing tests
  \<open>typeof key\<close>, the argument, not the synthesized \<open>k\<close>.
\<close>

definition put :: "int \<Rightarrow> rbt \<Rightarrow> jsval \<Rightarrow> jsval \<Rightarrow> error + rbt" where
  "put now t k0 v =
     (case RedBlackNode (if isNullish k0 then VNum now else k0) v RED 1 of
        Inl e \<Rightarrow> Inl e
      | Inr newNode \<Rightarrow>
         (case (if typeof k0 = TNumber then
                  (case putRecv (invertedIndex t) (numberRoot t) newNode of
                     Inl e \<Rightarrow> Inl e
                   | Inr (root, idx) \<Rightarrow>
                      (case setColor root BLACK of
                         Inl e \<Rightarrow> Inl e
                       | Inr root' \<Rightarrow> Inr (t\<lparr>numberRoot := root', invertedIndex := idx\<rparr>)))
                else Inr t) of
            Inl e \<Rightarrow> Inl e
          | Inr t1 \<Rightarrow>
             (if typeof k0 = TString then
                (case putRecv (invertedIndex t1) (stringRoot t1) newNode of
                   Inl e \<Rightarrow> Inl e
                 | Inr (root, idx) \<Rightarrow>
                    (case setColor root BLACK of
                       Inl e \<Rightarrow> Inl e
                     | Inr root' \<Rightarrow> Inr (t1\<lparr>stringRoot := root', invertedIndex := idx\<rparr>)))
              else Inr t1)))"

text \<open>
  \<open>insert\<close> calls \<open>put\<close> with one argument, the object literal \<open>{value: val}\<close>, so
  that object is \<open>put\<close>'s key and \<open>put\<close>'s value is \<open>undefined\<close>. \<open>obj\<close> is the
  identity of the literal.
\<close>

definition insert_rbt :: "int \<Rightarrow> nat \<Rightarrow> rbt \<Rightarrow> jsval \<Rightarrow> error + (bool \<times> rbt)" where
  "insert_rbt now obj t val =
     (if isNullish val then Inl ValueCanNotBeNull
      else (case put now t (VObj obj) VUndefined of
              Inl e \<Rightarrow> Inl e
            | Inr t' \<Rightarrow> Inr (size_rbt t' > size_rbt t, t')))"

subsection \<open>find\<close>

text \<open>
  What \<open>find\<close> returns: a stored value or \<open>null\<close> (\<open>RValue\<close>), an array of keys
  (\<open>RArray\<close>), or the object \<open>{key, value}\<close> (\<open>RRecord\<close>). \<open>Array.from\<close> applied
  to an inherited member of \<open>Object.prototype\<close> instead of a Set is kept symbolic
  (\<open>RArrayFrom\<close>, \<open>KeysArrayFrom\<close>).
\<close>

datatype keysResult = KeysNull | KeysArray "jsval list" | KeysArrayFrom string

datatype result =
    RValue jsval
  | RArray "jsval list"
  | RArrayFrom string
  | RRecord jsval keysResult

fun findIter :: "index \<Rightarrow> tree \<Rightarrow> jsval \<Rightarrow> jsval \<Rightarrow> error + result" where
  "findIter idx Null sk sv = Inr (RValue VNull)"
| "findIter idx (Node l k v c s r) sk sv =
     (case compareTo sk k of
        Inl e \<Rightarrow> Inl e
      | Inr cmp \<Rightarrow>
          if cmp < 0 then findIter idx l sk sv
          else if cmp > 0 then findIter idx r sk sv
          else if isNullish sv then Inr (RValue v)
          else if v \<noteq> sv then Inr (RValue VNull)
          else Inr (RRecord k
                 (case getProperty idx (toPropertyKey v) of
                    PUndefined \<Rightarrow> KeysNull
                  | PSet ks \<Rightarrow> KeysArray ks
                  | PInherited n \<Rightarrow> KeysArrayFrom n)))"

text \<open>
  \<open>find_rbt t k v\<close> is \<open>find({key: k, value: v})\<close>; an absent field is
  \<open>VUndefined\<close>. The probe node starts with key and value \<open>null\<close>; its fields are
  assigned, not passed to the constructor, so no length check is made.
\<close>

definition findByKey :: "rbt \<Rightarrow> jsval \<Rightarrow> jsval \<Rightarrow> error + result" where
  "findByKey t sk sv =
     (if typeof sk = TNumber then findIter (invertedIndex t) (numberRoot t) sk sv
      else if typeof sk = TString then findIter (invertedIndex t) (stringRoot t) sk sv
      else Inr (RValue VNull))"

definition findByValue :: "index \<Rightarrow> jsval \<Rightarrow> result" where
  "findByValue idx v =
     (case getProperty idx (toPropertyKey v) of
        PUndefined \<Rightarrow> RArray []
      | PSet ks \<Rightarrow> RArray ks
      | PInherited n \<Rightarrow> RArrayFrom n)"

definition find_rbt :: "rbt \<Rightarrow> jsval \<Rightarrow> jsval \<Rightarrow> error + result" where
  "find_rbt t k v =
     (if truthy k \<and> truthy v then findByKey t k v
      else if truthy k then findByKey t k VNull
      else if truthy v then Inr (findByValue (invertedIndex t) v)
      else Inl KeyAndValueNotFound)"

fun truthyResult :: "result \<Rightarrow> bool" where
  "truthyResult (RValue v) = truthy v"
| "truthyResult r = True"

definition constains :: "rbt \<Rightarrow> jsval \<Rightarrow> error + bool" where
  "constains t k =
     (case find_rbt t k VUndefined of
        Inl e \<Rightarrow> Inl e
      | Inr r \<Rightarrow> Inr (truthyResult r))"

subsection \<open>remove\<close>

definition moveRedLeft :: "tree \<Rightarrow> error + tree" where
  "moveRedLeft node =
     (case flipColors node of
        Inl e \<Rightarrow> Inl e
      | Inr h \<Rightarrow>
          if isRed (left (right h)) then
            (case rotateRight (right h) of
               Inl e \<Rightarrow> Inl e
             | Inr hr \<Rightarrow>
                (case rotateLeft (storeAt RightChild h hr) of
                   Inl e \<Rightarrow> Inl e
                 | Inr h' \<Rightarrow> flipColors h'))
          else Inr h)"

definition moveRedRight :: "tree \<Rightarrow> error + tree" where
  "moveRedRight node =
     (case flipColors node of
        Inl e \<Rightarrow> Inl e
      | Inr h \<Rightarrow>
          if isRed (left (left h)) then
            (case rotateRight h of
               Inl e \<Rightarrow> Inl e
             | Inr h' \<Rightarrow> flipColors h')
          else Inr h)"

definition balance :: "tree \<Rightarrow> error + tree" where
  "balance node =
     (case node of
        Null \<Rightarrow> Inl TypeError
      | Node l k v c s r \<Rightarrow>
         (case (if isRed (right node) then rotateLeft node else Inr node) of
            Inl e \<Rightarrow> Inl e
          | Inr h1 \<Rightarrow>
             (case (if isRed (left h1) \<and> isRed (left (left h1)) then rotateRight h1
                    else Inr h1) of
                Inl e \<Rightarrow> Inl e
              | Inr h2 \<Rightarrow>
                 (case (if isRed (left h2) \<and> isRed (right h2) then flipColors h2
                        else Inr h2) of
                    Inl e \<Rightarrow> Inl e
                  | Inr h3 \<Rightarrow> updateSize h3))))"

fun minAt :: "tree \<Rightarrow> error + tree" where
  "minAt Null = Inl TypeError"
| "minAt (Node Null k v c s r) = Inr (Node Null k v c s r)"
| "minAt (Node (Node ll lk lv lc ls lr) k v c s r) = minAt (Node ll lk lv lc ls lr)"

fun nodes :: "tree \<Rightarrow> nat" where
  "nodes Null = 0"
| "nodes (Node l k v c s r) = nodes l + nodes r + 1"

text \<open>
  The index update of \<open>removeRecv\<close> reads the property \<open>val\<close> of the node. No node has
  one (the field is \<open>value\<close>), so the read gives \<open>undefined\<close> and the Set looked up is
  the one under the property name \<open>undefined\<close>; \<open>.delete\<close> on anything but a Set is a
  TypeError.
\<close>

definition deleteFromIndex :: "index \<Rightarrow> jsval \<Rightarrow> error + index" where
  "deleteFromIndex idx k =
     (case getProperty idx (toPropertyKey VUndefined) of
        PSet ks \<Rightarrow> Inr (AList.update (toPropertyKey VUndefined) (setDelete k ks) idx)
      | PUndefined \<Rightarrow> Inl TypeError
      | PInherited n \<Rightarrow> Inl TypeError)"

text \<open>
  The body of \<open>removeRecv\<close> before its last two statements either returns \<open>null\<close> at
  once (\<open>Returned\<close>) or falls through to the index update and \<open>balance\<close> with the
  current \<open>h\<close> (\<open>Fallthrough\<close>).
\<close>

datatype flow = Returned | Fallthrough tree index

lemma moveRedLeft_nodes: "moveRedLeft t = Inr h \<Longrightarrow> nodes (left h) < nodes t"
  by (cases t rule: flipColors.cases)
    (auto simp: moveRedLeft_def split: sum.splits if_splits
      elim!: rotateRight.elims rotateLeft.elims flipColors.elims)

lemma rotateRight_nodes: "rotateRight t = Inr h \<Longrightarrow> nodes (right h) < nodes t"
  by (auto elim!: rotateRight.elims)

function removeRecv :: "index \<Rightarrow> tree \<Rightarrow> tree \<Rightarrow> error + (tree \<times> index)" where
  "removeRecv idx Null removeNode = Inl TypeError"
| "removeRecv idx (Node l k v c s r) removeNode =
     (case compareTo (key removeNode) k of
        Inl e \<Rightarrow> Inl e
      | Inr cmp \<Rightarrow>
         (case (if cmp < 0 then
                  (case l of
                     Null \<Rightarrow> Inl TypeError
                   | Node ll lk lv lc ls lr \<Rightarrow>
                      (case (if \<not> isRed l \<and> \<not> isRed ll then moveRedLeft (Node l k v c s r)
                             else Inr (Node l k v c s r)) of
                         Inl e \<Rightarrow> Inl e
                       | Inr h \<Rightarrow>
                          (case removeRecv idx (left h) removeNode of
                             Inl e \<Rightarrow> Inl e
                           | Inr (hl, idx') \<Rightarrow> Inr (Fallthrough (storeAt LeftChild h hl) idx'))))
                else
                  (case (if isRed l then rotateRight (Node l k v c s r)
                         else Inr (Node l k v c s r)) of
                     Inl e \<Rightarrow> Inl e
                   | Inr h \<Rightarrow>
                      (case compareTo (key removeNode) (key h) of
                         Inl e \<Rightarrow> Inl e
                       | Inr c2 \<Rightarrow>
                          if c2 = 0 \<and> right h = Null then Inr Returned
                          else if right h = Null then Inl TypeError
                          else if \<not> isRed (right h) \<and> \<not> isRed (left (right h))
                          then (case compareTo (key removeNode) VUndefined of
                                  Inl e \<Rightarrow> Inl e
                                | Inr c3 \<Rightarrow> Inl TypeError)
                          else
                            (case compareTo (key removeNode) (key h) of
                               Inl e \<Rightarrow> Inl e
                             | Inr c3 \<Rightarrow>
                                if c3 = 0 then
                                  (case minAt (right h) of
                                     Inl e \<Rightarrow> Inl e
                                   | Inr x \<Rightarrow> Inl TypeError)
                                else
                                  (case removeRecv idx (right h) removeNode of
                                     Inl e \<Rightarrow> Inl e
                                   | Inr (hr, idx') \<Rightarrow>
                                       Inr (Fallthrough (storeAt RightChild h hr) idx')))))) of
            Inl e \<Rightarrow> Inl e
          | Inr Returned \<Rightarrow> Inr (Null, idx)
          | Inr (Fallthrough h idx1) \<Rightarrow>
             (case deleteFromIndex idx1 (key h) of
                Inl e \<Rightarrow> Inl e
              | Inr idx2 \<Rightarrow>
                 (case balance h of
                    Inl e \<Rightarrow> Inl e
                  | Inr b \<Rightarrow> Inr (b, idx2)))))"
  by pat_completeness auto
termination
proof (relation "measure (\<lambda>(idx, node, removeNode). nodes node)")
  show "wf (measure (\<lambda>(idx, node, removeNode). nodes node))"
    by simp
next
  fix idx :: index and removeNode :: tree and l k v c s r cmp ll lk lv lc ls lr ma h
  assume "l = Node ll lk lv lc ls lr"
    and "(if \<not> isRed l \<and> \<not> isRed ll then moveRedLeft (Node l k v c s r)
          else Inr (Node l k v c s r)) = Inr h"
  then have "nodes (left h) < nodes (Node l k v c s r)"
    by (auto split: if_splits dest: moveRedLeft_nodes)
  then show "((idx, left h, removeNode), (idx, Node l k v c s r, removeNode))
      \<in> measure (\<lambda>(idx, node, removeNode). nodes node)"
    by simp
next
  fix idx :: index and removeNode :: tree and l k v c s r cmp ma h mb c2 mc c3
  assume "(if isRed l then rotateRight (Node l k v c s r) else Inr (Node l k v c s r)) = Inr h"
  then have "nodes (right h) < nodes (Node l k v c s r)"
    by (auto split: if_splits dest: rotateRight_nodes)
  then show "((idx, right h, removeNode), (idx, Node l k v c s r, removeNode))
      \<in> measure (\<lambda>(idx, node, removeNode). nodes node)"
    by simp
qed

declare removeRecv.simps [simp del]

text \<open>
  \<open>removeNumber\<close>. The last statement tests \<open>isEmpty()\<close>, which looks at both roots:
  when the numeric tree has become empty and the string tree is not, the assignment to
  \<open>this.numberRoot.color\<close> is a TypeError.
\<close>

definition removeNumber :: "rbt \<Rightarrow> jsval \<Rightarrow> error + (bool \<times> rbt)" where
  "removeNumber t k0 =
     (case numberRoot t of
        Null \<Rightarrow> Inl TypeError
      | Node l k v c s r \<Rightarrow>
         (case RedBlackNode k0 VUndefined BLACK 1 of
            Inl e \<Rightarrow> Inl e
          | Inr removeNode \<Rightarrow>
             (case removeRecv (invertedIndex t)
                     (if \<not> isRed l \<and> \<not> isRed r then Node l k v RED s r else Node l k v c s r)
                     removeNode of
                Inl e \<Rightarrow> Inl e
              | Inr (root, idx) \<Rightarrow>
                 (if \<not> isEmpty (t\<lparr>numberRoot := root, invertedIndex := idx\<rparr>) then
                    (case setColor root BLACK of
                       Inl e \<Rightarrow> Inl e
                     | Inr root' \<Rightarrow> Inr (True, t\<lparr>numberRoot := root', invertedIndex := idx\<rparr>))
                  else Inr (True, t\<lparr>numberRoot := root, invertedIndex := idx\<rparr>)))))"

text \<open>
  \<open>removeString\<close> assigns the result of \<open>removeRecv(this.stringRoot, ...)\<close> to
  \<open>this.numberRoot\<close>; \<open>this.stringRoot\<close> keeps pointing at the old root object.
  When the result is \<open>null\<close>, \<open>removeRecv\<close> returned at its first call before
  mutating anything, so the old root object is the old string tree (its colour set by
  the first statement, then forced BLACK by the last). When the result is a node, both
  roots point into the same node objects; a state of two separate trees cannot hold
  that, and the model stops with \<open>SharedRoots\<close> where the source returns \<open>true\<close>.
  For that reason the properties of \<open>put\<close>, \<open>find\<close> and \<open>remove\<close> below are
  stated for a table as it is, whatever calls produced it, and none of them for a
  sequence of calls that contains \<open>remove\<close>.
\<close>

definition removeString :: "rbt \<Rightarrow> jsval \<Rightarrow> error + (bool \<times> rbt)" where
  "removeString t k0 =
     (case stringRoot t of
        Null \<Rightarrow> Inl TypeError
      | Node l k v c s r \<Rightarrow>
         (case RedBlackNode k0 VUndefined BLACK 1 of
            Inl e \<Rightarrow> Inl e
          | Inr removeNode \<Rightarrow>
             (case removeRecv (invertedIndex t)
                     (if \<not> isRed l \<and> \<not> isRed r then Node l k v RED s r else Node l k v c s r)
                     removeNode of
                Inl e \<Rightarrow> Inl e
              | Inr (Null, idx) \<Rightarrow>
                  Inr (True, t\<lparr>numberRoot := Null, stringRoot := Node l k v BLACK s r,
                              invertedIndex := idx\<rparr>)
              | Inr (Node l' k' v' c' s' r', idx) \<Rightarrow> Inl SharedRoots)))"

definition remove_rbt :: "rbt \<Rightarrow> jsval \<Rightarrow> error + (bool \<times> rbt)" where
  "remove_rbt t k =
     (if isNullish k then Inl InvalidKey
      else (case constains t k of
              Inl e \<Rightarrow> Inl e
            | Inr found \<Rightarrow>
                if \<not> found then Inr (False, t)
                else if typeof k = TNumber then removeNumber t k
                else if typeof k = TString then removeString t k
                else Inr (False, t)))"

section \<open>Sequences of calls\<close>

text \<open>
  A call of \<open>put\<close> (with the clock reading \<open>Date.now()\<close> would give it) or of
  \<open>remove\<close>. A sequence runs from left to right and stops at the first call that
  raises, or that ends in \<open>SharedRoots\<close>: a sequence that returns a table is one in
  which every call returned and no \<open>remove\<close> left the two roots sharing nodes.
\<close>

datatype op = Put int jsval jsval | Remove jsval

fun applyOp :: "rbt \<Rightarrow> op \<Rightarrow> error + rbt" where
  "applyOp t (Put now k v) = put now t k v"
| "applyOp t (Remove k) = (case remove_rbt t k of Inl e \<Rightarrow> Inl e | Inr (b, t') \<Rightarrow> Inr t')"

fun run :: "rbt \<Rightarrow> op list \<Rightarrow> error + rbt" where
  "run t [] = Inr t"
| "run t (x # xs) = (case applyOp t x of Inl e \<Rightarrow> Inl e | Inr t' \<Rightarrow> run t' xs)"

section \<open>The red-black balance invariant\<close>

text \<open>
  A node's colour is the colour of the link from its parent. Two consecutive red links:
  a red node with a red child. \<open>blackLinks\<close> lists, for every path from the root to an
  absent child, the number of black links it crosses.
\<close>

fun consecutiveRed :: "tree \<Rightarrow> bool" where
  "consecutiveRed Null = False"
| "consecutiveRed (Node l k v c s r) =
     ((c = RED \<and> (isRed l \<or> isRed r)) \<or> consecutiveRed l \<or> consecutiveRed r)"

fun blackLinks :: "tree \<Rightarrow> nat list" where
  "blackLinks Null = [0]"
| "blackLinks (Node l k v c s r) =
     map (\<lambda>n. if c = BLACK then n + 1 else n) (blackLinks l @ blackLinks r)"

definition blackBalanced :: "tree \<Rightarrow> bool" where
  "blackBalanced t = (case blackLinks t of [] \<Rightarrow> True | h # hs \<Rightarrow> list_all (\<lambda>n. n = h) hs)"

definition balanceInvariant :: "tree \<Rightarrow> bool" where
  "balanceInvariant t = (\<not> consecutiveRed t \<and> blackBalanced t)"

section \<open>Notions used to state the properties\<close>

text \<open>
  The entries of a tree in in-order, as \<open>entriesRangeRecv\<close> visits them when no bound
  prunes, and its keys.
\<close>

fun entries :: "tree \<Rightarrow> (jsval \<times> jsval) list" where
  "entries Null = []"
| "entries (Node l k v c s r) = entries l @ (k, v) # entries r"

definition keysOf :: "tree \<Rightarrow> jsval list" where
  "keysOf t = map fst (entries t)"

text \<open>
  The number by which \<open>compareTo\<close> orders a key: the number itself, or the surrogate
  \<open>decodeStrKey\<close> computes for a string. A key is in the domain of the numeric tree
  when it is a number, in the domain of the string tree when it is a non-empty string
  (the empty string has the surrogate NaN, which compares equal to everything).
\<close>

fun rank :: "jsval \<Rightarrow> int" where
  "rank (VNum n) = n"
| "rank (VStr s) = (case decodeStrKey s of Some x \<Rightarrow> x | None \<Rightarrow> 0)"
| "rank v = 0"

fun inDomain :: "jstype \<Rightarrow> jsval \<Rightarrow> bool" where
  "inDomain TNumber (VNum n) = True"
| "inDomain TString (VStr s) = (s \<noteq> [])"
| "inDomain d v = False"

text \<open>
  A tree is ordered for a domain when its keys belong to the domain and their ranks
  increase strictly in in-order; a table is well formed when both its trees are.
\<close>

definition ordered :: "jstype \<Rightarrow> tree \<Rightarrow> bool" where
  "ordered d t = (list_all (inDomain d) (keysOf t) \<and> sorted_wrt (<) (map rank (keysOf t)))"

definition wellFormed :: "rbt \<Rightarrow> bool" where
  "wellFormed t = (ordered TNumber (numberRoot t) \<and> ordered TString (stringRoot t))"

text \<open>
  The value an association list of entries holds at a rank, and the list after a key is
  put: a new entry at its place in the order, or the new value at the entry of the same
  rank (whose key stays).
\<close>

fun valueAt :: "(jsval \<times> jsval) list \<Rightarrow> int \<Rightarrow> jsval option" where
  "valueAt [] x = None"
| "valueAt ((k, v) # es) x = (if rank k = x then Some v else valueAt es x)"

fun upsert :: "jsval \<Rightarrow> jsval \<Rightarrow> (jsval \<times> jsval) list \<Rightarrow> (jsval \<times> jsval) list" where
  "upsert k v [] = [(k, v)]"
| "upsert k v ((k', v') # es) =
     (if rank k < rank k' then (k, v) # (k', v') # es
      else if rank k = rank k' then (k', v) # es
      else (k', v') # upsert k v es)"

text \<open>
  The value a node is given for the argument \<open>value\<close>: the constructor turns
  \<open>undefined\<close> into \<open>null\<close>. \<open>treeOf t k\<close> is the tree \<open>put\<close>, \<open>find\<close> and
  \<open>remove\<close> route the key \<open>k\<close> to.
\<close>

definition stored :: "jsval \<Rightarrow> jsval" where
  "stored v = (if v = VUndefined then VNull else v)"

definition treeOf :: "rbt \<Rightarrow> jsval \<Rightarrow> tree" where
  "treeOf t k =
     (if typeof k = TNumber then numberRoot t
      else if typeof k = TString then stringRoot t
      else Null)"

text \<open>
  Calls in a sequence: one that does not put the empty string as a key; for a key
  \<open>k\<close>, a \<open>put\<close> of a key that does not compare equal to \<open>k\<close> (a key of another
  type does not: the comparison raises, and \<open>put\<close> never makes it); and a \<open>put\<close>
  whose value has its exact property name in the model.
\<close>

fun noEmptyKey :: "op \<Rightarrow> bool" where
  "noEmptyKey (Put now k v) = (k \<noteq> VStr [])"
| "noEmptyKey (Remove k) = True"


fun safeValue :: "op \<Rightarrow> bool" where
  "safeValue (Put now k v) = safeNumber v"
| "safeValue (Remove k) = True"

text \<open>The keys the index lists under a property name; every Set has distinct elements.\<close>

definition keySet :: "index \<Rightarrow> string \<Rightarrow> jsval set" where
  "keySet idx name = (case map_of idx name of None \<Rightarrow> {} | Some ks \<Rightarrow> set ks)"

definition setsDistinct :: "index \<Rightarrow> bool" where
  "setsDistinct idx = (\<forall>name ks. map_of idx name = Some ks \<longrightarrow> distinct ks)"

text \<open>
  A key is absent from a tree when \<open>compareTo\<close> gives a non-zero result against every
  key of the tree (for a number among numbers: when it is none of them).
\<close>

definition absent :: "jsval \<Rightarrow> tree \<Rightarrow> bool" where
  "absent k tr =
     list_all (\<lambda>k'. case compareTo k k' of Inl e \<Rightarrow> False | Inr c \<Rightarrow> c \<noteq> 0) (keysOf tr)"

text \<open>
  The keys that the \<open>put\<close> calls of a sequence stored under a property name of the
  reverse index, in call order: those of the calls routed to a tree whose stored value
  has that name.
\<close>

fun isPut :: "op \<Rightarrow> bool" where
  "isPut (Put now k v) = True"
| "isPut (Remove k) = False"

fun keysPutUnder :: "string \<Rightarrow> op list \<Rightarrow> jsval list" where
  "keysPutUnder name [] = []"
| "keysPutUnder name (Put now k v # ops) =
     (if (typeof k = TNumber \<or> typeof k = TString) \<and> toPropertyKey (stored v) = name
      then k # keysPutUnder name ops
      else keysPutUnder name ops)"
| "keysPutUnder name (Remove k # ops) = keysPutUnder name ops"

section \<open>Lemmas\<close>

subsection \<open>Rotations, colour flips and fix-ups keep the entries\<close>

lemma compareTo_rank:
  "inDomain d a \<Longrightarrow> inDomain d b \<Longrightarrow>
   compareTo a b = Inr (if rank a > rank b then 1 else if rank a < rank b then - 1 else 0)"
  by (cases d; cases a; cases b) (auto simp: neq_Nil_conv)

lemma rotateLeft_entries: "rotateLeft t = Inr t' \<Longrightarrow> entries t' = entries t"
  by (auto elim!: rotateLeft.elims)

lemma rotateRight_entries: "rotateRight t = Inr t' \<Longrightarrow> entries t' = entries t"
  by (auto elim!: rotateRight.elims)

lemma flipColors_entries: "flipColors t = Inr t' \<Longrightarrow> entries t' = entries t"
  by (auto elim!: flipColors.elims)

lemma setColor_entries: "setColor t c = Inr t' \<Longrightarrow> entries t' = entries t"
  by (cases t) auto

lemma updateSize_entries: "updateSize t = Inr t' \<Longrightarrow> entries t' = entries t"
  by (cases t) auto

lemma rotateLeft_left_left: "rotateLeft t = Inr x \<Longrightarrow> left (left x) = left t"
  by (auto elim!: rotateLeft.elims)

lemma flipColors_right_of_rotateRight:
  "rotateRight t = Inr x \<Longrightarrow> flipColors (right x) = Inr n \<Longrightarrow>
   entries (storeAt RightChild x n) = entries t"
  by (auto elim!: rotateRight.elims flipColors.elims)

lemma flipColors_left_of_rotateLeft:
  "rotateLeft t = Inr x \<Longrightarrow> flipColors (left x) = Inr n \<Longrightarrow>
   entries (storeAt LeftChild x n) = entries t"
  by (auto elim!: rotateLeft.elims flipColors.elims)

lemma fixRightLining_entries: "fixRightLining t = Inr t' \<Longrightarrow> entries t' = entries t"
  unfolding fixRightLining_def
  by (auto split: tree.splits sum.splits if_splits prod.splits
      dest: rotateLeft_entries rotateRight_entries flipColors_entries rotateLeft_left_left
        flipColors_right_of_rotateRight flipColors_left_of_rotateLeft)

subsection \<open>Surrogates of strings\<close>

text \<open>
  Two strings with the same first character and the same sum of the others have one
  surrogate. So have, by rounding, a string whose first character has a code from 135 on
  and the same string followed by \<open>A\<close>, which adds 1: at \<open>191 * 58^8\<close> doubles
  are 4 apart.
\<close>

lemma surrogate_of_permuted_tail: "compareTo (VStr ''abc'') (VStr ''acb'') = Inr 0"
  by code_simp

lemma surrogate_tail_rounded_away:
  "decodeStrKey [CHR 0xFF] = Some (191 * 58 ^ 8)
   \<and> decodeStrKey [CHR 0xFF, CHR ''A''] = Some (191 * 58 ^ 8)
   \<and> decodeStrKey [CHR 0xFF, CHR ''C''] = Some (191 * 58 ^ 8 + 4)
   \<and> compareTo (VStr [CHR 0xFF]) (VStr [CHR 0xFF, CHR ''A'']) = Inr 0"
  by code_simp

subsection \<open>Search in an ordered tree\<close>

lemma ordered_Null: "ordered d Null"
  by (simp add: ordered_def keysOf_def)

lemma ordered_Node:
  "ordered d (Node l k v c s r) \<longleftrightarrow>
     ordered d l \<and> ordered d r \<and> inDomain d k \<and>
     (\<forall>x \<in> set (keysOf l). rank x < rank k) \<and> (\<forall>x \<in> set (keysOf r). rank k < rank x)"
  by (fastforce simp: ordered_def keysOf_def sorted_wrt_append list_all_iff)

lemma valueAt_append:
  "valueAt (xs @ ys) x = (case valueAt xs x of None \<Rightarrow> valueAt ys x | Some v \<Rightarrow> Some v)"
  by (induction xs) auto

lemma valueAt_None: "\<forall>e \<in> set xs. rank (fst e) \<noteq> x \<Longrightarrow> valueAt xs x = None"
  by (induction xs) auto

lemma findIter_ordered:
  "ordered d t \<Longrightarrow> inDomain d sk \<Longrightarrow>
   findIter idx t sk VNull =
     Inr (RValue (case valueAt (entries t) (rank sk) of None \<Rightarrow> VNull | Some v \<Rightarrow> v))"
proof (induction t)
  case Null
  then show ?case by simp
next
  case (Node l k v c s r)
  from Node.prems have ol: "ordered d l" and "ordered d r" and dk: "inDomain d k"
    and lt: "\<forall>x \<in> set (keysOf l). rank x < rank k"
    and gt: "\<forall>x \<in> set (keysOf r). rank k < rank x"
    by (simp_all add: ordered_Node)
  have cmp: "compareTo sk k =
      Inr (if rank sk > rank k then 1 else if rank sk < rank k then - 1 else 0)"
    using Node.prems(2) dk by (rule compareTo_rank)
  consider (less) "rank sk < rank k" | (eq) "rank sk = rank k" | (greater) "rank k < rank sk"
    by linarith
  then show ?case
  proof cases
    case less
    then have "valueAt (entries r) (rank sk) = None"
      using gt by (intro valueAt_None) (auto simp: keysOf_def)
    with less cmp Node.IH(1)[OF ol Node.prems(2)] show ?thesis
      by (simp add: valueAt_append split: option.splits)
  next
    case eq
    then have "valueAt (entries l) (rank sk) = None"
      using lt by (intro valueAt_None) (auto simp: keysOf_def)
    with eq cmp show ?thesis
      by (simp add: valueAt_append)
  next
    case greater
    then have "valueAt (entries l) (rank sk) = None"
      using lt by (intro valueAt_None) (auto simp: keysOf_def)
    with greater cmp Node.IH(2)[OF \<open>ordered d r\<close> Node.prems(2)] show ?thesis
      by (simp add: valueAt_append)
  qed
qed

subsection \<open>put on an ordered tree\<close>

lemma upsert_before:
  "rank k < rank k' \<Longrightarrow> upsert k v (xs @ (k', v') # ys) = upsert k v xs @ (k', v') # ys"
  by (induction xs) auto

lemma upsert_at:
  "rank k = rank k' \<Longrightarrow> \<forall>e \<in> set xs. rank (fst e) < rank k \<Longrightarrow>
   upsert k v (xs @ (k', v') # ys) = xs @ (k', v) # ys"
  by (induction xs) auto

lemma upsert_after:
  "rank k' < rank k \<Longrightarrow> \<forall>e \<in> set xs. rank (fst e) < rank k' \<Longrightarrow>
   upsert k v (xs @ (k', v') # ys) = xs @ (k', v') # upsert k v ys"
  by (induction xs) auto

lemma putRecv_entries:
  "ordered d t \<Longrightarrow> inDomain d k \<Longrightarrow>
   putRecv idx t (Node Null k v c0 s0 Null) = Inr (t', idx') \<Longrightarrow>
   entries t' = upsert k v (entries t)"
proof (induction t arbitrary: t' idx')
  case Null
  then show ?case by (auto split: sum.splits)
next
  case (Node l k' v' c s r)
  from Node.prems have ol: "ordered d l" and ord_r: "ordered d r" and dk: "inDomain d k'"
    and lt: "\<forall>x \<in> set (keysOf l). rank x < rank k'"
    and gt: "\<forall>x \<in> set (keysOf r). rank k' < rank x"
    by (simp_all add: ordered_Node)
  have cmp: "compareTo k k' =
      Inr (if rank k > rank k' then 1 else if rank k < rank k' then - 1 else 0)"
    using Node.prems(2) dk by (rule compareTo_rank)
  have lt': "\<forall>e \<in> set (entries l). rank (fst e) < rank k'"
    using lt by (auto simp: keysOf_def)
  consider (less) "rank k < rank k'" | (eq) "rank k = rank k'" | (greater) "rank k' < rank k"
    by linarith
  then show ?case
  proof cases
    case less
    with Node.prems(3) cmp obtain l' idx1 fixed where
      rec: "putRecv idx l (Node Null k v c0 s0 Null) = Inr (l', idx1)"
      and fx: "fixRightLining (Node l' k' v' c s r) = Inr fixed"
      and upd: "updateSize fixed = Inr t'"
      by (auto split: sum.splits prod.splits)
    have "entries t' = entries l' @ (k', v') # entries r"
      using fixRightLining_entries[OF fx] updateSize_entries[OF upd] by simp
    also have "entries l' = upsert k v (entries l)"
      using Node.IH(1)[OF ol Node.prems(2) rec] .
    finally show ?thesis
      using less by (simp add: upsert_before)
  next
    case eq
    with Node.prems(3) cmp obtain fixed where
      fx: "fixRightLining (Node l k' v c s r) = Inr fixed"
      and upd: "updateSize fixed = Inr t'"
      by (auto split: sum.splits prod.splits)
    have "entries t' = entries l @ (k', v) # entries r"
      using fixRightLining_entries[OF fx] updateSize_entries[OF upd] by simp
    then show ?thesis
      using eq lt' by (simp add: upsert_at)
  next
    case greater
    with Node.prems(3) cmp obtain r' idx1 fixed where
      rec: "putRecv idx r (Node Null k v c0 s0 Null) = Inr (r', idx1)"
      and fx: "fixRightLining (Node l k' v' c s r') = Inr fixed"
      and upd: "updateSize fixed = Inr t'"
      by (auto split: sum.splits prod.splits)
    have "entries t' = entries l @ (k', v') # entries r'"
      using fixRightLining_entries[OF fx] updateSize_entries[OF upd] by simp
    also have "entries r' = upsert k v (entries r)"
      using Node.IH(2)[OF ord_r Node.prems(2) rec] .
    finally show ?thesis
      using greater lt' by (simp add: upsert_after)
  qed
qed

lemma ordered_cong: "entries a = entries b \<Longrightarrow> ordered d a = ordered d b"
  by (simp add: ordered_def keysOf_def)

lemma upsert_keys: "set (map fst (upsert k v es)) \<subseteq> insert k (set (map fst es))"
  by (induction es) (force split: if_splits)+

lemma upsert_ranks:
  "set (map (rank \<circ> fst) (upsert k v es)) = insert (rank k) (set (map (rank \<circ> fst) es))"
  by (induction es) (force split: if_splits)+

lemma upsert_sorted:
  "sorted_wrt (<) (map (rank \<circ> fst) es) \<Longrightarrow> sorted_wrt (<) (map (rank \<circ> fst) (upsert k v es))"
proof (induction es)
  case Nil
  then show ?case by simp
next
  case (Cons e es)
  obtain k' v' where e: "e = (k', v')" by (cases e)
  have "\<forall>x \<in> set (map (rank \<circ> fst) (upsert k v es)). x = rank k \<or> rank k' < x"
    unfolding upsert_ranks using Cons.prems e by auto
  with Cons e show ?case by auto
qed


lemma ordered_upsert:
  assumes "ordered d t" and "inDomain d k" and "entries t' = upsert k v (entries t)"
  shows "ordered d t'"
proof -
  have "set (keysOf t') \<subseteq> insert k (set (keysOf t))"
    using assms(3) upsert_keys[of k v "entries t"] by (simp add: keysOf_def)
  then have "list_all (inDomain d) (keysOf t')"
    using assms(1,2) by (auto simp: ordered_def list_all_iff)
  moreover have "sorted_wrt (<) (map rank (keysOf t'))"
    using assms(1,3) upsert_sorted[of "entries t" k v] by (simp add: ordered_def keysOf_def)
  ultimately show ?thesis by (simp add: ordered_def)
qed

lemma put_number:
  assumes "put now t (VNum n) v = Inr t'" and "ordered TNumber (numberRoot t)"
  shows "entries (numberRoot t') = upsert (VNum n) (stored v) (entries (numberRoot t))"
    and "stringRoot t' = stringRoot t" and "ordered TNumber (numberRoot t')"
proof -
  from assms(1) obtain root idx root' where
    rec: "putRecv (invertedIndex t) (numberRoot t) (Node Null (VNum n) (stored v) RED 1 Null) = Inr (root, idx)"
    and col: "setColor root BLACK = Inr root'"
    and t': "t' = t\<lparr>numberRoot := root', invertedIndex := idx\<rparr>"
    by (auto simp: put_def RedBlackNode_def stored_def split: sum.splits prod.splits if_splits)
  have e: "entries root = upsert (VNum n) (stored v) (entries (numberRoot t))"
    using putRecv_entries[OF assms(2) _ rec] by simp
  show 1: "entries (numberRoot t') = upsert (VNum n) (stored v) (entries (numberRoot t))"
    using e setColor_entries[OF col] t' by simp
  show "stringRoot t' = stringRoot t" using t' by simp
  show "ordered TNumber (numberRoot t')"
    using ordered_upsert[OF assms(2) _ 1] by simp
qed

lemma put_string:
  assumes "put now t (VStr s) v = Inr t'" and "ordered TString (stringRoot t)" and "s \<noteq> []"
  shows "entries (stringRoot t') = upsert (VStr s) (stored v) (entries (stringRoot t))"
    and "numberRoot t' = numberRoot t" and "ordered TString (stringRoot t')"
proof -
  from assms(1) obtain root idx root' where
    rec: "putRecv (invertedIndex t) (stringRoot t) (Node Null (VStr s) (stored v) RED 1 Null) = Inr (root, idx)"
    and col: "setColor root BLACK = Inr root'"
    and t': "t' = t\<lparr>stringRoot := root', invertedIndex := idx\<rparr>"
    by (auto simp: put_def RedBlackNode_def stored_def split: sum.splits prod.splits if_splits)
  have d: "inDomain TString (VStr s)" using assms(3) by simp
  have e: "entries root = upsert (VStr s) (stored v) (entries (stringRoot t))"
    using putRecv_entries[OF assms(2) d rec] .
  show 1: "entries (stringRoot t') = upsert (VStr s) (stored v) (entries (stringRoot t))"
    using e setColor_entries[OF col] t' by simp
  show "numberRoot t' = numberRoot t" using t' by simp
  show "ordered TString (stringRoot t')"
    using ordered_upsert[OF assms(2) d 1] .
qed

lemma put_other:
  "typeof k \<noteq> TNumber \<Longrightarrow> typeof k \<noteq> TString \<Longrightarrow> put now t k v = Inr t' \<Longrightarrow> t' = t"
  by (auto simp: put_def split: sum.splits)


lemma put_entries:
  assumes "put now t k v = Inr t'" and "inDomain (typeof k) k"
    and "ordered (typeof k) (treeOf t k)"
  shows "entries (treeOf t' k) = upsert k (stored v) (entries (treeOf t k))"
    and "ordered (typeof k) (treeOf t' k)"
proof -
  have "entries (treeOf t' k) = upsert k (stored v) (entries (treeOf t k))
      \<and> ordered (typeof k) (treeOf t' k)"
  proof (cases k)
    case (VNum n)
    with put_number(1,3)[of now t n v t'] assms(1,3) show ?thesis
      by (simp add: treeOf_def)
  next
    case (VStr s)
    then have "s \<noteq> []" using assms(2) by simp
    with put_string(1,3)[of now t s v t'] assms(1,3) VStr show ?thesis
      by (simp add: treeOf_def)
  qed (use assms(2) in auto)
  then show "entries (treeOf t' k) = upsert k (stored v) (entries (treeOf t k))"
    and "ordered (typeof k) (treeOf t' k)"
    by simp_all
qed

lemma put_wellFormed:
  assumes "put now t k v = Inr t'" and "wellFormed t" and "k \<noteq> VStr []"
  shows "wellFormed t'"
proof (cases k)
  case (VNum n)
  with put_number(2,3)[of now t n v t'] assms(1,2) show ?thesis
    by (simp add: wellFormed_def)
next
  case (VStr s)
  then have "s \<noteq> []" using assms(3) by simp
  with put_string(2,3)[of now t s v t'] assms(1,2) VStr show ?thesis
    by (simp add: wellFormed_def)
qed (use assms put_other[of k now t v t'] in auto)

lemma puts_wellFormed:
  "run t ops = Inr t' \<Longrightarrow> list_all isPut ops \<Longrightarrow> list_all noEmptyKey ops \<Longrightarrow>
   wellFormed t \<Longrightarrow> wellFormed t'"
proof (induction ops arbitrary: t)
  case Nil
  then show ?case by simp
next
  case (Cons x xs)
  from Cons.prems(2,3) obtain now k v where x: "x = Put now k v" and k: "k \<noteq> VStr []"
    by (cases x) auto
  from Cons.prems(1) x obtain t1 where p: "put now t k v = Inr t1" and r: "run t1 xs = Inr t'"
    by (auto split: sum.splits)
  from Cons.IH[OF r] Cons.prems(2,3) put_wellFormed[OF p Cons.prems(4) k] show ?case by simp
qed

lemma wellFormed_emptyTree: "wellFormed emptyTree"
  by (simp add: wellFormed_def emptyTree_def ordered_Null)

subsection \<open>The recursive delete keeps a tree ordered\<close>

lemma moveRedLeft_entries: "moveRedLeft t = Inr t' \<Longrightarrow> entries t' = entries t"
  unfolding moveRedLeft_def
  by (cases t rule: flipColors.cases)
    (auto split: sum.splits if_splits elim!: rotateRight.elims rotateLeft.elims flipColors.elims)

lemma balance_entries: "balance t = Inr t' \<Longrightarrow> entries t' = entries t"
  unfolding balance_def
  by (auto split: tree.splits sum.splits if_splits
      dest!: rotateLeft_entries rotateRight_entries flipColors_entries updateSize_entries)

lemma removeRecv_Node_cases:
  assumes "removeRecv idx (Node l k v c s r) rn = Inr (t', idx')"
  obtains
    (returned) "t' = Null"
  | (leftward) cmp ll lk lv lc ls lr h hl idx1 where
      "compareTo (key rn) k = Inr cmp" and "cmp < 0" and "l = Node ll lk lv lc ls lr"
      and "(if \<not> isRed l \<and> \<not> isRed ll then moveRedLeft (Node l k v c s r)
            else Inr (Node l k v c s r)) = Inr h"
      and "removeRecv idx (left h) rn = Inr (hl, idx1)"
      and "balance (storeAt LeftChild h hl) = Inr t'"
  | (rightward) cmp h c2 c3 hr idx1 where
      "compareTo (key rn) k = Inr cmp" and "\<not> cmp < 0"
      and "(if isRed l then rotateRight (Node l k v c s r) else Inr (Node l k v c s r)) = Inr h"
      and "compareTo (key rn) (key h) = Inr c2" and "\<not> (c2 = 0 \<and> right h = Null)"
      and "right h \<noteq> Null" and "\<not> (\<not> isRed (right h) \<and> \<not> isRed (left (right h)))"
      and "compareTo (key rn) (key h) = Inr c3" and "c3 \<noteq> 0"
      and "removeRecv idx (right h) rn = Inr (hr, idx1)"
      and "balance (storeAt RightChild h hr) = Inr t'"
proof -
  obtain cmp where cmp: "compareTo (key rn) k = Inr cmp"
    using assms by (auto simp: removeRecv.simps split: sum.splits)
  show ?thesis
  proof (cases "cmp < 0")
    case True
    with assms cmp show ?thesis
      by (auto simp: removeRecv.simps split: sum.splits tree.splits flow.splits prod.splits
          intro: returned leftward)
  next
    case False
    then obtain h where h: "(if isRed l then rotateRight (Node l k v c s r)
        else Inr (Node l k v c s r)) = Inr h"
      using assms cmp by (auto simp: removeRecv.simps split: sum.splits)
    obtain c2 where c2: "compareTo (key rn) (key h) = Inr c2"
      using assms cmp False h by (auto simp: removeRecv.simps split: sum.splits)
    show ?thesis
    proof (cases "c2 = 0 \<and> right h = Null")
      case True
      with assms cmp False h c2 have "t' = Null"
        by (auto simp: removeRecv.simps split: sum.splits)
      then show ?thesis by (rule returned)
    next
      case nr: False
      with assms cmp False h c2 show ?thesis
        by (auto simp: removeRecv.simps split: sum.splits if_splits flow.splits prod.splits
            intro: rightward)
    qed
  qed
qed

lemma keysOf_Node: "keysOf (Node l k v c s r) = keysOf l @ k # keysOf r"
  by (simp add: keysOf_def)

lemma removeRecv_ordered:
  "removeRecv idx t rn = Inr (t', idx') \<Longrightarrow> ordered d t \<Longrightarrow>
   ordered d t' \<and> set (keysOf t') \<subseteq> set (keysOf t)"
proof (induction "nodes t" arbitrary: t t' idx' rule: less_induct)
  case less
  show ?case
  proof (cases t)
    case Null
    with less.prems show ?thesis by (simp add: removeRecv.simps)
  next
    case (Node l k v c s r)
    from less.prems(1)[unfolded Node] show ?thesis
    proof (cases rule: removeRecv_Node_cases)
      case returned
      then show ?thesis by (simp add: ordered_Null keysOf_def)
    next
      case (leftward cmp ll lk lv lc ls lr h hl idx1)
      have eh: "entries h = entries t"
        using leftward(4) Node by (auto split: if_splits dest: moveRedLeft_entries)
      have small: "nodes (left h) < nodes t"
        using leftward(4) Node by (auto split: if_splits dest: moveRedLeft_nodes)
      obtain a hk hv hc hs b where h: "h = Node a hk hv hc hs b"
        using eh Node by (cases h) auto
      have oh: "ordered d h" using ordered_cong[OF eh] less.prems(2) by simp
      then have "ordered d (left h)" by (simp add: h ordered_Node)
      from less.hyps[OF small leftward(5) this]
      have sub: "ordered d hl" "set (keysOf hl) \<subseteq> set (keysOf a)" by (simp_all add: h)
      have "ordered d (Node hl hk hv hc hs b)"
        using oh sub unfolding h ordered_Node by auto
      moreover have "entries t' = entries (Node hl hk hv hc hs b)"
        using balance_entries[OF leftward(6)] h by simp
      moreover have "keysOf t = keysOf a @ hk # keysOf b"
        using arg_cong[OF eh, of "map fst"] h by (simp add: keysOf_def)
      then have "set (keysOf (Node hl hk hv hc hs b)) \<subseteq> set (keysOf t)"
        using sub(2) by (auto simp: keysOf_Node)
      ultimately show ?thesis
        by (simp add: ordered_def keysOf_def)
    next
      case (rightward cmp h c2 c3 hr idx1)
      have eh: "entries h = entries t"
        using rightward(3) Node by (auto split: if_splits dest: rotateRight_entries)
      have small: "nodes (right h) < nodes t"
        using rightward(3) Node by (auto split: if_splits dest: rotateRight_nodes)
      obtain a hk hv hc hs b where h: "h = Node a hk hv hc hs b"
        using eh Node by (cases h) auto
      have oh: "ordered d h" using ordered_cong[OF eh] less.prems(2) by simp
      then have "ordered d (right h)" by (simp add: h ordered_Node)
      from less.hyps[OF small rightward(10) this]
      have sub: "ordered d hr" "set (keysOf hr) \<subseteq> set (keysOf b)" by (simp_all add: h)
      have "ordered d (Node a hk hv hc hs hr)"
        using oh sub unfolding h ordered_Node by auto
      moreover have "entries t' = entries (Node a hk hv hc hs hr)"
        using balance_entries[OF rightward(11)] h by simp
      moreover have "keysOf t = keysOf a @ hk # keysOf b"
        using arg_cong[OF eh, of "map fst"] h by (simp add: keysOf_def)
      then have "set (keysOf (Node a hk hv hc hs hr)) \<subseteq> set (keysOf t)"
        using sub(2) by (auto simp: keysOf_Node)
      ultimately show ?thesis
        by (simp add: ordered_def keysOf_def)
    qed
  qed
qed

lemma ordered_recolor: "ordered d (Node l k v c s r) \<Longrightarrow> ordered d (Node l k v c' s r)"
  by (simp add: ordered_Node)

subsection \<open>put and the reverse index\<close>

lemma setAdd_set: "set (setAdd k ks) = insert k (set ks)"
  by (auto simp: setAdd_def)

lemma setAdd_distinct: "distinct ks \<Longrightarrow> distinct (setAdd k ks)"
  by (auto simp: setAdd_def)

lemma setAdd_member: "k \<in> set ks \<Longrightarrow> setAdd k ks = ks"
  by (simp add: setAdd_def)

lemma addToIndex_map_of:
  assumes "addToIndex idx v k = Inr idx'"
  shows "map_of idx' =
    (map_of idx)(toPropertyKey v \<mapsto>
       (case map_of idx (toPropertyKey v) of None \<Rightarrow> [k] | Some ks \<Rightarrow> setAdd k ks))"
  using assms
  by (auto simp: addToIndex_def getProperty_def update_conv' split: option.splits if_splits)

lemma addToIndex_keySet:
  assumes "addToIndex idx v k = Inr idx'"
  shows "keySet idx' name =
    (if name = toPropertyKey v then insert k (keySet idx name) else keySet idx name)"
  using addToIndex_map_of[OF assms]
  by (auto simp: keySet_def setAdd_set split: option.splits)

lemma addToIndex_distinct:
  assumes "addToIndex idx v k = Inr idx'" and "setsDistinct idx"
  shows "setsDistinct idx'"
  using addToIndex_map_of[OF assms(1)] assms(2)
  by (auto simp: setsDistinct_def setAdd_distinct split: option.splits if_splits)

lemma addToIndex_again:
  assumes "addToIndex idx v k = Inr idx'"
  shows "addToIndex idx' v k = Inr idx'"
proof -
  obtain ks where ks: "map_of idx' (toPropertyKey v) = Some ks" and mem: "k \<in> set ks"
    using addToIndex_map_of[OF assms]
    by (auto simp: setAdd_set split: option.splits)
  then show ?thesis
    by (simp add: addToIndex_def getProperty_def setAdd_member update_triv)
qed

lemma putRecv_index:
  "putRecv idx t newNode = Inr (t', idx') \<Longrightarrow>
   addToIndex idx (value' newNode) (key newNode) = Inr idx'"
proof (induction t arbitrary: t' idx')
  case Null
  then show ?case by (auto split: sum.splits)
next
  case (Node l k v c s r)
  from Node.prems obtain cmp where cmp: "compareTo (key newNode) k = Inr cmp"
    by (auto split: sum.splits)
  consider (less) "cmp < 0" | (greater) "\<not> cmp < 0" "cmp > 0" | (eq) "\<not> cmp < 0" "\<not> cmp > 0"
    by blast
  then show ?case
  proof cases
    case less
    with Node.prems cmp obtain l' idx1 where
      rec: "putRecv idx l newNode = Inr (l', idx1)"
      and again: "addToIndex idx1 (value' newNode) (key newNode) = Inr idx'"
      by (auto split: sum.splits prod.splits)
    from Node.IH(1)[OF rec] have first: "addToIndex idx (value' newNode) (key newNode) = Inr idx1" .
    from addToIndex_again[OF first] again have "idx' = idx1" by simp
    with first show ?thesis by simp
  next
    case greater
    with Node.prems cmp obtain r' idx1 where
      rec: "putRecv idx r newNode = Inr (r', idx1)"
      and again: "addToIndex idx1 (value' newNode) (key newNode) = Inr idx'"
      by (auto split: sum.splits prod.splits)
    from Node.IH(2)[OF rec] have first: "addToIndex idx (value' newNode) (key newNode) = Inr idx1" .
    from addToIndex_again[OF first] again have "idx' = idx1" by simp
    with first show ?thesis by simp
  next
    case eq
    with Node.prems cmp show ?thesis
      by (auto split: sum.splits prod.splits)
  qed
qed

lemma put_index:
  assumes "put now t k v = Inr t'" and "typeof k = TNumber \<or> typeof k = TString"
  shows "addToIndex (invertedIndex t) (stored v) k = Inr (invertedIndex t')"
proof (cases k)
  case (VNum n)
  with assms(1) obtain root idx where
    "putRecv (invertedIndex t) (numberRoot t) (Node Null (VNum n) (stored v) RED 1 Null) = Inr (root, idx)"
    and "invertedIndex t' = idx"
    by (auto simp: put_def RedBlackNode_def stored_def split: sum.splits prod.splits if_splits)
  with putRecv_index[OF this(1)] VNum show ?thesis by simp
next
  case (VStr s)
  with assms(1) obtain root idx where
    "putRecv (invertedIndex t) (stringRoot t) (Node Null (VStr s) (stored v) RED 1 Null) = Inr (root, idx)"
    and "invertedIndex t' = idx"
    by (auto simp: put_def RedBlackNode_def stored_def split: sum.splits prod.splits if_splits)
  with putRecv_index[OF this(1)] VStr show ?thesis by simp
qed (use assms(2) in auto)

subsection \<open>find after put\<close>

lemma ordered_sorted: "ordered d t \<Longrightarrow> sorted_wrt (<) (map (rank \<circ> fst) (entries t))"
  by (simp add: ordered_def keysOf_def)

lemma ordered_inDomain: "ordered d t \<Longrightarrow> e \<in> set (entries t) \<Longrightarrow> inDomain d (fst e)"
  by (auto simp: ordered_def keysOf_def list_all_iff)

lemma truthy_inDomain:
  "truthy k \<Longrightarrow> typeof k = TNumber \<or> typeof k = TString \<Longrightarrow> inDomain (typeof k) k"
  by (cases k) auto

lemma find_key_ordered:
  assumes "ordered (typeof k) (treeOf t k)" and "truthy k"
    and "typeof k = TNumber \<or> typeof k = TString"
  shows "find_rbt t k VUndefined =
     Inr (RValue (case valueAt (entries (treeOf t k)) (rank k) of None \<Rightarrow> VNull | Some v \<Rightarrow> v))"
proof -
  have "find_rbt t k VUndefined = findIter (invertedIndex t) (treeOf t k) k VNull"
    using assms(2,3) by (auto simp: find_rbt_def findByKey_def treeOf_def)
  also have "\<dots> = Inr (RValue (case valueAt (entries (treeOf t k)) (rank k) of
      None \<Rightarrow> VNull | Some v \<Rightarrow> v))"
    using assms(1) truthy_inDomain[OF assms(2,3)] by (rule findIter_ordered)
  finally show ?thesis .
qed

lemma compareTo_empty_string: "compareTo (VStr []) (VStr s) = Inr 0"
  by simp



lemma run_append:
  "run t (xs @ ys) = (case run t xs of Inl e \<Rightarrow> Inl e | Inr t' \<Rightarrow> run t' ys)"
  by (induction xs arbitrary: t) (auto split: sum.splits)

lemma putRecv_number_key:
  "putRecv idx t (Node Null (VNum n) v c0 s0 Null) = Inr (t', idx') \<Longrightarrow>
   VNum n \<in> set (keysOf t')"
proof (induction t arbitrary: t' idx')
  case Null
  then show ?case by (auto simp: keysOf_def split: sum.splits)
next
  case (Node l k v' c s r)
  from Node.prems obtain cmp where cmp: "compareTo (VNum n) k = Inr cmp"
    by (auto split: sum.splits)
  consider (less) "cmp < 0" | (greater) "\<not> cmp < 0" "cmp > 0" | (eq) "\<not> cmp < 0" "\<not> cmp > 0"
    by blast
  then show ?case
  proof cases
    case less
    with Node.prems cmp obtain l' idx1 fixed where
      rec: "putRecv idx l (Node Null (VNum n) v c0 s0 Null) = Inr (l', idx1)"
      and fx: "fixRightLining (Node l' k v' c s r) = Inr fixed"
      and upd: "updateSize fixed = Inr t'"
      by (auto split: sum.splits prod.splits)
    have "keysOf t' = keysOf l' @ k # keysOf r"
      using fixRightLining_entries[OF fx] updateSize_entries[OF upd] by (simp add: keysOf_def)
    with Node.IH(1)[OF rec] show ?thesis by simp
  next
    case greater
    with Node.prems cmp obtain r' idx1 fixed where
      rec: "putRecv idx r (Node Null (VNum n) v c0 s0 Null) = Inr (r', idx1)"
      and fx: "fixRightLining (Node l k v' c s r') = Inr fixed"
      and upd: "updateSize fixed = Inr t'"
      by (auto split: sum.splits prod.splits)
    have "keysOf t' = keysOf l @ k # keysOf r'"
      using fixRightLining_entries[OF fx] updateSize_entries[OF upd] by (simp add: keysOf_def)
    with Node.IH(2)[OF rec] show ?thesis by simp
  next
    case eq
    with cmp have k: "k = VNum n"
      by (cases k) (auto split: if_splits)
    from eq Node.prems cmp obtain fixed where
      fx: "fixRightLining (Node l k v c s r) = Inr fixed"
      and upd: "updateSize fixed = Inr t'"
      by (auto split: sum.splits prod.splits)
    have "keysOf t' = keysOf l @ k # keysOf r"
      using fixRightLining_entries[OF fx] updateSize_entries[OF upd] by (simp add: keysOf_def)
    with k show ?thesis by simp
  qed
qed

subsection \<open>Absent keys, entries of one rank, keys listed under a value\<close>

lemma findIter_absent: "absent k tr \<Longrightarrow> findIter idx tr k sv = Inr (RValue VNull)"
  by (induction tr) (auto simp: absent_def keysOf_def split: sum.splits)

lemma absent_number:
  "list_all (inDomain TNumber) (keysOf tr) \<Longrightarrow>
   absent (VNum n) tr \<longleftrightarrow> VNum n \<notin> set (keysOf tr)"
proof (induction tr)
  case Null
  then show ?case by (simp add: absent_def keysOf_def)
next
  case (Node l k v c s r)
  then obtain m where "k = VNum m"
    by (cases k) (auto simp: keysOf_def)
  with Node show ?case
    by (auto simp: absent_def keysOf_def)
qed

lemma valueAt_present:
  "sorted_wrt (<) (map (rank \<circ> fst) es) \<Longrightarrow> (k, v) \<in> set es \<Longrightarrow> valueAt es (rank k) = Some v"
  by (induction es) force+

lemma filter_rank_upsert:
  "sorted_wrt (<) (map (rank \<circ> fst) es) \<Longrightarrow>
   \<exists>k'. rank k' = rank k \<and> (k' = k \<or> k' \<in> fst ` set es)
      \<and> filter (\<lambda>e. rank (fst e) = rank k) (upsert k v es) = [(k', v)]"
proof (induction es)
  case Nil
  then show ?case by simp
next
  case (Cons e es)
  obtain a b where e: "e = (a, b)" by (cases e)
  have tail: "\<forall>x \<in> set es. rank a < rank (fst x)" and sorted: "sorted_wrt (<) (map (rank \<circ> fst) es)"
    using Cons.prems e by (auto simp: comp_def)
  consider (less) "rank k < rank a" | (eq) "rank k = rank a" | (greater) "rank a < rank k"
    by linarith
  then show ?case
  proof cases
    case less
    then have "filter (\<lambda>e. rank (fst e) = rank k) es = []"
      using tail by (auto simp: filter_empty_conv)
    with less e show ?thesis by auto
  next
    case eq
    then have "filter (\<lambda>e. rank (fst e) = rank k) es = []"
      using tail by (auto simp: filter_empty_conv)
    with eq e show ?thesis by auto
  next
    case greater
    from Cons.IH[OF sorted] obtain k' where
      "rank k' = rank k" "k' = k \<or> k' \<in> fst ` set es"
      "filter (\<lambda>e. rank (fst e) = rank k) (upsert k v es) = [(k', v)]"
      by blast
    with greater e show ?thesis by auto
  qed
qed

lemma inDomain_number_rank:
  "inDomain TNumber a \<Longrightarrow> inDomain TNumber b \<Longrightarrow> rank a = rank b \<Longrightarrow> a = b"
  by (cases a; cases b) auto

lemma findByValue_listed:
  assumes "k \<in> keySet idx (toPropertyKey v)"
  shows "\<exists>ks. findByValue idx v = RArray ks \<and> k \<in> set ks"
  using assms by (auto simp: keySet_def findByValue_def getProperty_def split: option.splits)

lemma put_keySet:
  assumes "put now t k v = Inr t'"
  shows "keySet (invertedIndex t') name =
     keySet (invertedIndex t) name \<union> set (keysPutUnder name [Put now k v])"
proof (cases "typeof k = TNumber \<or> typeof k = TString")
  case True
  from addToIndex_keySet[OF put_index[OF assms True]] True show ?thesis by auto
next
  case False
  with put_other[OF _ _ assms] show ?thesis by simp
qed

lemma put_setsDistinct:
  assumes "put now t k v = Inr t'" and "setsDistinct (invertedIndex t)"
  shows "setsDistinct (invertedIndex t')"
proof (cases "typeof k = TNumber \<or> typeof k = TString")
  case True
  from addToIndex_distinct[OF put_index[OF assms(1) True] assms(2)] show ?thesis .
next
  case False
  with put_other[OF _ _ assms(1)] assms(2) show ?thesis by simp
qed

lemma keysPutUnder_Cons:
  "set (keysPutUnder name (x # xs)) = set (keysPutUnder name [x]) \<union> set (keysPutUnder name xs)"
  by (cases x) auto

lemma puts_keySet:
  "run t ops = Inr t' \<Longrightarrow> list_all isPut ops \<Longrightarrow>
   keySet (invertedIndex t') name = keySet (invertedIndex t) name \<union> set (keysPutUnder name ops)"
proof (induction ops arbitrary: t)
  case Nil
  then show ?case by simp
next
  case (Cons x xs)
  from Cons.prems(2) obtain now k v where x: "x = Put now k v" by (cases x) auto
  from Cons.prems(1) x obtain t1 where p: "put now t k v = Inr t1" and r: "run t1 xs = Inr t'"
    by (auto split: sum.splits)
  have "keySet (invertedIndex t') name =
      keySet (invertedIndex t1) name \<union> set (keysPutUnder name xs)"
    using Cons.IH[OF r] Cons.prems(2) by simp
  also have "keySet (invertedIndex t1) name =
      keySet (invertedIndex t) name \<union> set (keysPutUnder name [x])"
    unfolding x using p by (rule put_keySet)
  finally show ?case
    unfolding keysPutUnder_Cons[of name x xs] by auto
qed

lemma puts_setsDistinct:
  "run t ops = Inr t' \<Longrightarrow> list_all isPut ops \<Longrightarrow> setsDistinct (invertedIndex t) \<Longrightarrow>
   setsDistinct (invertedIndex t')"
proof (induction ops arbitrary: t)
  case Nil
  then show ?case by simp
next
  case (Cons x xs)
  from Cons.prems(2) obtain now k v where x: "x = Put now k v" by (cases x) auto
  from Cons.prems(1) x obtain t1 where p: "put now t k v = Inr t1" and r: "run t1 xs = Inr t'"
    by (auto split: sum.splits)
  from Cons.IH[OF r] Cons.prems(2) put_setsDistinct[OF p Cons.prems(3)] show ?case by simp
qed

subsection \<open>What the delete path does whenever it is reached\<close>

text \<open>
  Whenever the descent of \<open>removeRecv\<close> goes right (or stays) at a node that is not
  spliced out, and the right child and its left child are black, the call raises: the
  borrowing helper is never applied.
\<close>

lemma removeRecv_right_fixup_raises:
  assumes "compareTo (key removeNode) k = Inr cmp" and "\<not> cmp < 0"
    and "(if isRed l then rotateRight (Node l k v c s r) else Inr (Node l k v c s r)) = Inr h"
    and "compareTo (key removeNode) (key h) = Inr c2"
    and "right h \<noteq> Null"
    and "\<not> isRed (right h)" and "\<not> isRed (left (right h))"
  shows "removeRecv idx (Node l k v c s r) removeNode = Inl TypeMismatch"
proof -
  have "compareTo (key removeNode) VUndefined = Inl TypeMismatch"
    by (cases "key removeNode") simp_all
  with assms show ?thesis
    by (simp add: removeRecv.simps)
qed

text \<open>
  Whenever \<open>removeString\<close> returns, it returns \<open>true\<close> with the numeric tree
  emptied, and the string tree and the reverse index holding what they held.
\<close>

lemma balance_not_Null: "balance t \<noteq> Inr Null"
  by (auto simp: balance_def split: tree.splits sum.splits if_splits elim!: updateSize.elims)

lemma removeRecv_returned_index:
  assumes "removeRecv idx (Node l k v c s r) rn = Inr (Null, idx')"
  shows "idx' = idx"
proof -
  obtain cmp where cmp: "compareTo (key rn) k = Inr cmp"
    using assms by (auto simp: removeRecv.simps split: sum.splits)
  show ?thesis
  proof (cases "cmp < 0")
    case True
    with assms cmp show ?thesis
      using balance_not_Null
      by (auto simp: removeRecv.simps split: sum.splits tree.splits flow.splits prod.splits)
  next
    case False
    then obtain h where h: "(if isRed l then rotateRight (Node l k v c s r)
        else Inr (Node l k v c s r)) = Inr h"
      using assms cmp by (auto simp: removeRecv.simps split: sum.splits)
    obtain c2 where c2: "compareTo (key rn) (key h) = Inr c2"
      using assms cmp False h by (auto simp: removeRecv.simps split: sum.splits)
    show ?thesis
    proof (cases "c2 = 0 \<and> right h = Null")
      case True
      with assms cmp False h c2 show ?thesis
        by (auto simp: removeRecv.simps split: sum.splits)
    next
      case nr: False
      with assms cmp False h c2 show ?thesis
        using balance_not_Null
        by (auto simp: removeRecv.simps split: sum.splits if_splits flow.splits prod.splits)
    qed
  qed
qed

text \<open>
  \<open>removeRecv\<close> returns \<open>null\<close> only when its first call splices its argument out:
  the probe compares equal to the node, whose left link is not red and whose right child
  is absent. No rotation and no colour flip has been made by then.
\<close>

lemma removeRecv_returns_null_only_at_once:
  assumes "removeRecv idx (Node l k v c s r) rn = Inr (Null, idx')"
  shows "compareTo (key rn) k = Inr 0 \<and> \<not> isRed l \<and> r = Null"
proof -
  obtain cmp where cmp: "compareTo (key rn) k = Inr cmp"
    using assms by (auto simp: removeRecv.simps split: sum.splits)
  show ?thesis
  proof (cases "cmp < 0")
    case True
    with assms cmp show ?thesis
      using balance_not_Null
      by (auto simp: removeRecv.simps split: sum.splits tree.splits flow.splits prod.splits)
  next
    case False
    then obtain h where h: "(if isRed l then rotateRight (Node l k v c s r)
        else Inr (Node l k v c s r)) = Inr h"
      using assms cmp by (auto simp: removeRecv.simps split: sum.splits)
    obtain c2 where c2: "compareTo (key rn) (key h) = Inr c2"
      using assms cmp False h by (auto simp: removeRecv.simps split: sum.splits)
    show ?thesis
    proof (cases "c2 = 0 \<and> right h = Null")
      case True
      with h have "\<not> isRed l" and "h = Node l k v c s r"
        by (auto split: if_splits elim!: rotateRight.elims)
      with True cmp c2 show ?thesis by simp
    next
      case nr: False
      with assms cmp False h c2 show ?thesis
        using balance_not_Null
        by (auto simp: removeRecv.simps split: sum.splits if_splits flow.splits prod.splits)
    qed
  qed
qed

lemma removeString_returns:
  assumes "removeString t k = Inr (b, t')"
  shows "b \<and> numberRoot t' = Null \<and> entries (stringRoot t') = entries (stringRoot t)
         \<and> invertedIndex t' = invertedIndex t"
proof -
  from assms obtain l k0 v c s r where root: "stringRoot t = Node l k0 v c s r"
    by (auto simp: removeString_def split: tree.splits)
  define root1 where
    "root1 = (if \<not> isRed l \<and> \<not> isRed r then Node l k0 v RED s r else Node l k0 v c s r)"
  have "\<exists>c1. root1 = Node l k0 v c1 s r"
    by (auto simp: root1_def)
  then obtain c1 where r1: "root1 = Node l k0 v c1 s r" ..
  from assms root obtain rn idx where
    rec: "removeRecv (invertedIndex t) root1 rn = Inr (Null, idx)"
    and res: "b" "numberRoot t' = Null" "stringRoot t' = Node l k0 v BLACK s r"
      "invertedIndex t' = idx"
    unfolding removeString_def root1_def
    by (auto split: sum.splits prod.splits tree.splits)
  from removeRecv_returned_index[OF rec[unfolded r1]] res root show ?thesis by simp
qed

section \<open>Defects shown at a concrete input\<close>

text \<open>
  C1 (balance invariant after any sequence of put and remove). The second and third test
  of \<open>fixRightLining\<close> are made on \<open>node\<close>, not on \<open>fixedNode\<close>, so after a right
  rotation the colour flip of the new subtree root is skipped. Four calls of \<open>put\<close>,
  with keys 4, 2, 3, 1, leave the numeric tree with the red node 3 under the root 2 and
  the red node 4 under 3: two consecutive red links. The invariant fails (the black
  balance alone still holds).
\<close>

theorem put_4_2_3_1_breaks_balanceInvariant:
  "run emptyTree
     [Put 0 (VNum 4) (VStr ''d''), Put 0 (VNum 2) (VStr ''b''),
      Put 0 (VNum 3) (VStr ''c''), Put 0 (VNum 1) (VStr ''a'')]
   = Inr \<lparr>numberRoot =
            Node (Node Null (VNum 1) (VStr ''a'') RED 1 Null) (VNum 2) (VStr ''b'') BLACK 4
              (Node Null (VNum 3) (VStr ''c'') RED 2
                 (Node Null (VNum 4) (VStr ''d'') RED 1 Null)),
          stringRoot = Null,
          invertedIndex =
            [(''d'', [VNum 4]), (''b'', [VNum 2]), (''c'', [VNum 3]), (''a'', [VNum 1])]\<rparr>
   \<and> \<not> balanceInvariant
        (Node (Node Null (VNum 1) (VStr ''a'') RED 1 Null) (VNum 2) (VStr ''b'') BLACK 4
           (Node Null (VNum 3) (VStr ''c'') RED 2
              (Node Null (VNum 4) (VStr ''d'') RED 1 Null)))
   \<and> blackBalanced
        (Node (Node Null (VNum 1) (VStr ''a'') RED 1 Null) (VNum 2) (VStr ''b'') BLACK 4
           (Node Null (VNum 3) (VStr ''c'') RED 2
              (Node Null (VNum 4) (VStr ''d'') RED 1 Null)))"
  by code_simp

text \<open>
  C5 (remove of a string key deletes it from the string tree and leaves the numeric tree
  unchanged). \<open>removeString\<close> stores the result of the recursive delete in
  \<open>numberRoot\<close>. With the numeric key 1 and the string key \<open>a\<close> in the table,
  \<open>remove('a')\<close> returns \<open>true\<close>, empties the numeric tree and leaves \<open>a\<close> in the
  string tree.
\<close>

theorem remove_string_key_overwrites_numberRoot:
  "run emptyTree [Put 0 (VNum 1) (VStr ''x''), Put 0 (VStr ''a'') (VStr ''y'')]
   = Inr \<lparr>numberRoot = Node Null (VNum 1) (VStr ''x'') BLACK 1 Null,
          stringRoot = Node Null (VStr ''a'') (VStr ''y'') BLACK 1 Null,
          invertedIndex = [(''x'', [VNum 1]), (''y'', [VStr ''a''])]\<rparr>
   \<and> remove_rbt
        \<lparr>numberRoot = Node Null (VNum 1) (VStr ''x'') BLACK 1 Null,
         stringRoot = Node Null (VStr ''a'') (VStr ''y'') BLACK 1 Null,
         invertedIndex = [(''x'', [VNum 1]), (''y'', [VStr ''a''])]\<rparr>
        (VStr ''a'')
     = Inr (True,
          \<lparr>numberRoot = Null,
           stringRoot = Node Null (VStr ''a'') (VStr ''y'') BLACK 1 Null,
           invertedIndex = [(''x'', [VNum 1]), (''y'', [VStr ''a''])]\<rparr>)"
  by code_simp

text \<open>
  C6 (the right-hand fix-up of the recursive delete replaces the subtree by
  \<open>moveRedRight\<close> of it). The source assigns the function \<open>this.moveRedRight\<close>
  itself to \<open>h\<close>; the next statement compares the probe with \<open>h\<close>, whose \<open>key\<close> is
  \<open>undefined\<close>, and raises. With keys 1, 2, 3 in the table, root 2 and black children 1
  and 3, \<open>remove(3)\<close> descends to the right with a black right child whose left child
  is black: the call raises, where \<open>moveRedRight\<close> of the recoloured root is a tree.
\<close>

theorem remove_right_fixup_raises:
  "run emptyTree
     [Put 0 (VNum 1) (VStr ''a''), Put 0 (VNum 2) (VStr ''b''), Put 0 (VNum 3) (VStr ''c'')]
   = Inr \<lparr>numberRoot =
            Node (Node Null (VNum 1) (VStr ''a'') BLACK 1 Null) (VNum 2) (VStr ''b'') BLACK 3
              (Node Null (VNum 3) (VStr ''c'') BLACK 1 Null),
          stringRoot = Null,
          invertedIndex = [(''a'', [VNum 1]), (''b'', [VNum 2]), (''c'', [VNum 3])]\<rparr>
   \<and> remove_rbt
        \<lparr>numberRoot =
           Node (Node Null (VNum 1) (VStr ''a'') BLACK 1 Null) (VNum 2) (VStr ''b'') BLACK 3
             (Node Null (VNum 3) (VStr ''c'') BLACK 1 Null),
         stringRoot = Null,
         invertedIndex = [(''a'', [VNum 1]), (''b'', [VNum 2]), (''c'', [VNum 3])]\<rparr>
        (VNum 3)
     = Inl TypeMismatch
   \<and> removeRecv [(''a'', [VNum 1]), (''b'', [VNum 2]), (''c'', [VNum 3])]
        (Node (Node Null (VNum 1) (VStr ''a'') BLACK 1 Null) (VNum 2) (VStr ''b'') RED 3
           (Node Null (VNum 3) (VStr ''c'') BLACK 1 Null))
        (Node Null (VNum 3) VNull BLACK 1 Null)
     = Inl TypeMismatch
   \<and> moveRedRight
        (Node (Node Null (VNum 1) (VStr ''a'') BLACK 1 Null) (VNum 2) (VStr ''b'') RED 3
           (Node Null (VNum 3) (VStr ''c'') BLACK 1 Null))
     = Inr (Node (Node Null (VNum 1) (VStr ''a'') RED 1 Null) (VNum 2) (VStr ''b'') BLACK 3
              (Node Null (VNum 3) (VStr ''c'') RED 1 Null))"
  by code_simp

text \<open>
  C7 (\<open>insert(v)\<close> synthesizes a key and stores \<open>v\<close> under it). \<open>insert\<close> hands
  \<open>put\<close> the object \<open>{value: val}\<close> as its key; \<open>put\<close> routes on the type of that
  argument, which is neither number nor string, so nothing is stored: for every table,
  clock reading and non-null value, \<open>insert\<close> returns \<open>false\<close> and the table is
  unchanged.
\<close>

theorem insert_stores_nothing:
  "insert_rbt now obj t v = (if isNullish v then Inl ValueCanNotBeNull else Inr (False, t))"
  by (simp add: insert_rbt_def put_def RedBlackNode_def)

section \<open>Round trip of put and find\<close>




section \<open>Truthiness tests in find\<close>

text \<open>
  C9. \<open>find({key: 0, value: v})\<close> never looks a key up: with a truthy \<open>v\<close> it is the
  lookup of \<open>v\<close> in the reverse index, otherwise it raises "Key and value not found";
  either way the result does not depend on the two trees. Yet \<open>put(0, w)\<close>, when it
  returns, leaves the key 0 in the numeric tree, where \<open>find({key: 0})\<close> raises.
\<close>

theorem find_key_zero_never_looks_up:
  "find_rbt t (VNum 0) v =
     (if truthy v then Inr (findByValue (invertedIndex t) v) else Inl KeyAndValueNotFound)
   \<and> find_rbt (t\<lparr>numberRoot := a, stringRoot := b\<rparr>) (VNum 0) v = find_rbt t (VNum 0) v
   \<and> (put now t (VNum 0) w = Inr t' \<longrightarrow>
        VNum 0 \<in> set (keysOf (numberRoot t'))
        \<and> find_rbt t' (VNum 0) VUndefined = Inl KeyAndValueNotFound)"
proof -
  have "VNum 0 \<in> set (keysOf (numberRoot t'))" if "put now t (VNum 0) w = Inr t'"
  proof -
    from that obtain root idx root' where
      rec: "putRecv (invertedIndex t) (numberRoot t) (Node Null (VNum 0) (stored w) RED 1 Null)
              = Inr (root, idx)"
      and col: "setColor root BLACK = Inr root'" and t': "numberRoot t' = root'"
      by (auto simp: put_def RedBlackNode_def stored_def split: sum.splits prod.splits if_splits)
    from putRecv_number_key[OF rec] setColor_entries[OF col] t' show ?thesis
      by (simp add: keysOf_def)
  qed
  then show ?thesis
    by (simp add: find_rbt_def)
qed

text \<open>The table after \<open>put(0, 7)\<close> on an empty table.\<close>

theorem find_key_zero_never_looks_up_witness:
  "put 1 emptyTree (VNum 0) (VNum 7)
   = Inr \<lparr>numberRoot = Node Null (VNum 0) (VNum 7) BLACK 1 Null, stringRoot = Null,
          invertedIndex = [(''7'', [VNum 0])]\<rparr>
   \<and> VNum 0 \<in> set (keysOf (Node Null (VNum 0) (VNum 7) BLACK 1 Null))
   \<and> find_rbt
        \<lparr>numberRoot = Node Null (VNum 0) (VNum 7) BLACK 1 Null, stringRoot = Null,
         invertedIndex = [(''7'', [VNum 0])]\<rparr>
        (VNum 0) VUndefined
     = Inl KeyAndValueNotFound
   \<and> find_rbt
        \<lparr>numberRoot = Node Null (VNum 0) (VNum 7) BLACK 1 Null, stringRoot = Null,
         invertedIndex = [(''7'', [VNum 0])]\<rparr>
        (VNum 0) (VNum 7)
     = Inr (RArray [VNum 0])"
proof -
  have p: "put 1 emptyTree (VNum 0) (VNum 7)
   = Inr \<lparr>numberRoot = Node Null (VNum 0) (VNum 7) BLACK 1 Null, stringRoot = Null,
          invertedIndex = [(''7'', [VNum 0])]\<rparr>"
    by code_simp
  have f: "findByValue [(''7'', [VNum 0])] (VNum 7) = RArray [VNum 0]"
    by code_simp
  from find_key_zero_never_looks_up[of
      "\<lparr>numberRoot = Node Null (VNum 0) (VNum 7) BLACK 1 Null, stringRoot = Null,
        invertedIndex = [(''7'', [VNum 0])]\<rparr>" "VNum 7" Null Null 1 "VNum 7"
      "\<lparr>numberRoot = Node Null (VNum 0) (VNum 7) BLACK 1 Null, stringRoot = Null,
        invertedIndex = [(''7'', [VNum 0])]\<rparr>"]
    find_key_zero_never_looks_up[of emptyTree "VNum 7" Null Null 1 "VNum 7"
      "\<lparr>numberRoot = Node Null (VNum 0) (VNum 7) BLACK 1 Null, stringRoot = Null,
        invertedIndex = [(''7'', [VNum 0])]\<rparr>"]
    p f
  show ?thesis by simp
qed

section \<open>The reverse index\<close>

text \<open>
  C2, as amended. After any sequence of \<open>put\<close> calls on an empty table that all
  return, and for every truthy value \<open>v\<close> whose property name is not a member of
  \<open>Object.prototype\<close>, \<open>find({value: v})\<close> returns an array without repetition of
  exactly the keys that some \<open>put\<close> of the sequence stored with a value of the same
  property name as \<open>v\<close>: every \<open>put\<close> adds its association, and none is ever taken
  away by a later \<open>put\<close> of the same key. What \<open>remove\<close> does to the index is left
  out. The numbers among the values put and \<open>v\<close>, if a number, are safe integers.
\<close>

theorem find_by_value_lists_every_key_ever_put:
  assumes "run emptyTree ops = Inr t"
    and "list_all isPut ops"
    and "list_all safeValue ops"
    and "safeNumber v"
    and "truthy v"
    and "toPropertyKey v \<notin> set objectPrototypeNames"
  shows "\<exists>ks. find_rbt t VUndefined v = Inr (RArray ks) \<and> distinct ks
           \<and> set ks = set (keysPutUnder (toPropertyKey v) ops)"
proof -
  have ks: "keySet (invertedIndex t) (toPropertyKey v) = set (keysPutUnder (toPropertyKey v) ops)"
    using puts_keySet[OF assms(1,2), of "toPropertyKey v"] by (simp add: emptyTree_def keySet_def)
  have d: "setsDistinct (invertedIndex t)"
    using puts_setsDistinct[OF assms(1,2)] by (simp add: emptyTree_def setsDistinct_def)
  have f: "find_rbt t VUndefined v = Inr (findByValue (invertedIndex t) v)"
    using assms(5) by (simp add: find_rbt_def)
  show ?thesis
  proof (cases "map_of (invertedIndex t) (toPropertyKey v)")
    case None
    with ks f assms(6) show ?thesis
      by (auto simp: findByValue_def getProperty_def keySet_def)
  next
    case (Some ks')
    with d have "distinct ks'" by (auto simp: setsDistinct_def)
    with Some ks f show ?thesis
      by (auto simp: findByValue_def getProperty_def keySet_def)
  qed
qed

text \<open>
  The hypotheses hold for \<open>put(7, 'p')\<close>, \<open>put(8, 'p')\<close>, \<open>put(7, 'q')\<close> and the
  value \<open>'p'\<close>.
\<close>

theorem find_by_value_lists_every_key_ever_put_witness:
  "list_all isPut
     [Put 1 (VNum 7) (VStr ''p''), Put 2 (VNum 8) (VStr ''p''), Put 3 (VNum 7) (VStr ''q'')]
   \<and> list_all safeValue
     [Put 1 (VNum 7) (VStr ''p''), Put 2 (VNum 8) (VStr ''p''), Put 3 (VNum 7) (VStr ''q'')]
   \<and> safeNumber (VStr ''p'')
   \<and> truthy (VStr ''p'')
   \<and> toPropertyKey (VStr ''p'') \<notin> set objectPrototypeNames
   \<and> run emptyTree
        [Put 1 (VNum 7) (VStr ''p''), Put 2 (VNum 8) (VStr ''p''), Put 3 (VNum 7) (VStr ''q'')]
     = Inr \<lparr>numberRoot =
              Node (Node Null (VNum 7) (VStr ''q'') RED 1 Null) (VNum 8) (VStr ''p'') BLACK 2 Null,
            stringRoot = Null,
            invertedIndex = [(''p'', [VNum 7, VNum 8]), (''q'', [VNum 7])]\<rparr>
   \<and> find_rbt
        \<lparr>numberRoot =
           Node (Node Null (VNum 7) (VStr ''q'') RED 1 Null) (VNum 8) (VStr ''p'') BLACK 2 Null,
         stringRoot = Null,
         invertedIndex = [(''p'', [VNum 7, VNum 8]), (''q'', [VNum 7])]\<rparr>
        VUndefined (VStr ''p'')
     = Inr (RArray [VNum 7, VNum 8])
   \<and> keysPutUnder ''p''
        [Put 1 (VNum 7) (VStr ''p''), Put 2 (VNum 8) (VStr ''p''), Put 3 (VNum 7) (VStr ''q'')]
     = [VNum 7, VNum 8]"
proof -
  let ?ops = "[Put 1 (VNum 7) (VStr ''p''), Put 2 (VNum 8) (VStr ''p''), Put 3 (VNum 7) (VStr ''q'')]"
  let ?t = "\<lparr>numberRoot =
              Node (Node Null (VNum 7) (VStr ''q'') RED 1 Null) (VNum 8) (VStr ''p'') BLACK 2 Null,
            stringRoot = Null,
            invertedIndex = [(''p'', [VNum 7, VNum 8]), (''q'', [VNum 7])]\<rparr>"
  have r: "run emptyTree ?ops = Inr ?t" by code_simp
  have a: "list_all isPut ?ops" by simp
  have sv: "list_all safeValue ?ops" "safeNumber (VStr ''p'')" by simp_all
  have v: "truthy (VStr ''p'')" by simp
  have n: "toPropertyKey (VStr ''p'') \<notin> set objectPrototypeNames"
    by (simp add: objectPrototypeNames_def)
  have f: "find_rbt ?t VUndefined (VStr ''p'') = Inr (RArray [VNum 7, VNum 8])" by code_simp
  have k: "keysPutUnder ''p'' ?ops = [VNum 7, VNum 8]" by (simp add: stored_def)
  from find_by_value_lists_every_key_ever_put[OF r a sv v n] r a sv v n f k
  show ?thesis by simp
qed

text \<open>
  C2 as stated fails after an update: after \<open>put(7, 'p')\<close>, \<open>put(8, 'p')\<close>,
  \<open>put(7, 'q')\<close> the only key whose stored value is \<open>'p'\<close> is 8, and
  \<open>find({value: 'p'})\<close> returns 7 and 8.
\<close>

theorem find_by_value_lists_overwritten_key:
  "run emptyTree
     [Put 1 (VNum 7) (VStr ''p''), Put 2 (VNum 8) (VStr ''p''), Put 3 (VNum 7) (VStr ''q'')]
     = Inr \<lparr>numberRoot =
              Node (Node Null (VNum 7) (VStr ''q'') RED 1 Null) (VNum 8) (VStr ''p'') BLACK 2 Null,
            stringRoot = Null,
            invertedIndex = [(''p'', [VNum 7, VNum 8]), (''q'', [VNum 7])]\<rparr>
   \<and> find_rbt
        \<lparr>numberRoot =
           Node (Node Null (VNum 7) (VStr ''q'') RED 1 Null) (VNum 8) (VStr ''p'') BLACK 2 Null,
         stringRoot = Null,
         invertedIndex = [(''p'', [VNum 7, VNum 8]), (''q'', [VNum 7])]\<rparr>
        VUndefined (VStr ''p'')
     = Inr (RArray [VNum 7, VNum 8])
   \<and> map fst (filter (\<lambda>e. snd e = VStr ''p'')
        (entries
           (Node (Node Null (VNum 7) (VStr ''q'') RED 1 Null) (VNum 8) (VStr ''p'') BLACK 2 Null)))
     = [VNum 8]"
  by code_simp

text \<open>
  C4, as amended. In a table in which the tree that the key \<open>k\<close> (a number or a
  non-empty string) is routed to is a search tree, \<open>put(k, v1)\<close> followed by
  \<open>put(k, v2)\<close>, both returning, leaves exactly one entry whose key compares equal to
  \<open>k\<close> (for a number: the key \<open>k\<close> itself), holding the value stored for \<open>v2\<close>.
  The reverse index lists \<open>k\<close> under \<open>v2\<close> and still lists it under \<open>v1\<close>; for
  a truthy \<open>v1\<close>, \<open>find({value: v1})\<close> still returns \<open>k\<close>.
\<close>

theorem put_twice_keeps_one_entry_and_both_associations:
  assumes "ordered (typeof k) (treeOf t k)"
    and "typeof k = TNumber \<or> typeof k = TString"
    and "k \<noteq> VStr []"
    and "put n1 t k v1 = Inr t1"
    and "put n2 t1 k v2 = Inr t2"
  shows "(\<exists>k'. filter (\<lambda>e. compareTo k (fst e) = Inr 0) (entries (treeOf t2 k)) = [(k', stored v2)]
            \<and> (typeof k = TNumber \<longrightarrow> k' = k))
    \<and> (\<exists>ks. findByValue (invertedIndex t2) (stored v1) = RArray ks \<and> k \<in> set ks)
    \<and> (\<exists>ks. findByValue (invertedIndex t2) (stored v2) = RArray ks \<and> k \<in> set ks)
    \<and> (truthy v1 \<longrightarrow> (\<exists>ks. find_rbt t2 VUndefined v1 = Inr (RArray ks) \<and> k \<in> set ks))"
proof -
  have dom: "inDomain (typeof k) k"
    using assms(2,3) by (cases k) auto
  let ?es = "entries (treeOf t k)"
  have e1: "entries (treeOf t1 k) = upsert k (stored v1) ?es"
    and o1: "ordered (typeof k) (treeOf t1 k)"
    using put_entries[OF assms(4) dom assms(1)] by simp_all
  have e2: "entries (treeOf t2 k) = upsert k (stored v2) (upsert k (stored v1) ?es)"
    and o2: "ordered (typeof k) (treeOf t2 k)"
    using put_entries[OF assms(5) dom o1] e1 by simp_all
  have "sorted_wrt (<) (map (rank \<circ> fst) (upsert k (stored v1) ?es))"
    using ordered_sorted[OF assms(1)] by (rule upsert_sorted)
  from filter_rank_upsert[OF this, of k "stored v2"] obtain k' where
    k': "rank k' = rank k"
    and f: "filter (\<lambda>e. rank (fst e) = rank k) (entries (treeOf t2 k)) = [(k', stored v2)]"
    unfolding e2 by blast
  have same: "compareTo k (fst e) = Inr 0 \<longleftrightarrow> rank (fst e) = rank k"
    if "e \<in> set (entries (treeOf t2 k))" for e
    using compareTo_rank[OF dom ordered_inDomain[OF o2 that]] by auto
  have f': "filter (\<lambda>e. compareTo k (fst e) = Inr 0) (entries (treeOf t2 k)) = [(k', stored v2)]"
    using f same by (simp cong: filter_cong)
  have "(k', stored v2) \<in> set (filter (\<lambda>e. rank (fst e) = rank k) (entries (treeOf t2 k)))"
    unfolding f by simp
  then have "(k', stored v2) \<in> set (entries (treeOf t2 k))"
    by simp
  then have "inDomain (typeof k) k'"
    using ordered_inDomain[OF o2] by fastforce
  then have num: "typeof k = TNumber \<longrightarrow> k' = k"
    using dom k' by (auto dest: inDomain_number_rank)
  have i1: "k \<in> keySet (invertedIndex t1) (toPropertyKey (stored v1))"
    using addToIndex_keySet[OF put_index[OF assms(4,2)]] by simp
  have i2: "keySet (invertedIndex t2) name =
      (if name = toPropertyKey (stored v2) then insert k (keySet (invertedIndex t1) name)
       else keySet (invertedIndex t1) name)" for name
    using addToIndex_keySet[OF put_index[OF assms(5,2)]] by simp
  have l1: "k \<in> keySet (invertedIndex t2) (toPropertyKey (stored v1))"
    using i1 i2 by simp
  have l2: "k \<in> keySet (invertedIndex t2) (toPropertyKey (stored v2))"
    using i2 by simp
  have fv: "\<exists>ks. find_rbt t2 VUndefined v1 = Inr (RArray ks) \<and> k \<in> set ks" if "truthy v1"
  proof -
    have "stored v1 = v1" using that by (auto simp: stored_def)
    with findByValue_listed[OF l1] that show ?thesis by (simp add: find_rbt_def)
  qed
  show ?thesis
    using f' num findByValue_listed[OF l1] findByValue_listed[OF l2] fv by blast
qed

text \<open>
  The hypotheses hold in the table after \<open>put(2, 'a')\<close>, for \<open>put(5, 'old')\<close> and
  \<open>put(5, 'new')\<close>.
\<close>

theorem put_twice_keeps_one_entry_and_both_associations_witness:
  "run emptyTree [Put 1 (VNum 2) (VStr ''a'')]
     = Inr \<lparr>numberRoot = Node Null (VNum 2) (VStr ''a'') BLACK 1 Null, stringRoot = Null,
            invertedIndex = [(''a'', [VNum 2])]\<rparr>
   \<and> ordered TNumber (Node Null (VNum 2) (VStr ''a'') BLACK 1 Null)
   \<and> put 2
        \<lparr>numberRoot = Node Null (VNum 2) (VStr ''a'') BLACK 1 Null, stringRoot = Null,
         invertedIndex = [(''a'', [VNum 2])]\<rparr>
        (VNum 5) (VStr ''old'')
     = Inr \<lparr>numberRoot =
              Node (Node Null (VNum 2) (VStr ''a'') RED 1 Null) (VNum 5) (VStr ''old'') BLACK 2 Null,
            stringRoot = Null,
            invertedIndex = [(''a'', [VNum 2]), (''old'', [VNum 5])]\<rparr>
   \<and> put 3
        \<lparr>numberRoot =
           Node (Node Null (VNum 2) (VStr ''a'') RED 1 Null) (VNum 5) (VStr ''old'') BLACK 2 Null,
         stringRoot = Null,
         invertedIndex = [(''a'', [VNum 2]), (''old'', [VNum 5])]\<rparr>
        (VNum 5) (VStr ''new'')
     = Inr \<lparr>numberRoot =
              Node (Node Null (VNum 2) (VStr ''a'') RED 1 Null) (VNum 5) (VStr ''new'') BLACK 2 Null,
            stringRoot = Null,
            invertedIndex = [(''a'', [VNum 2]), (''old'', [VNum 5]), (''new'', [VNum 5])]\<rparr>
   \<and> filter (\<lambda>e. compareTo (VNum 5) (fst e) = Inr 0)
        (entries
           (Node (Node Null (VNum 2) (VStr ''a'') RED 1 Null) (VNum 5) (VStr ''new'') BLACK 2 Null))
     = [(VNum 5, VStr ''new'')]
   \<and> find_rbt
        \<lparr>numberRoot =
           Node (Node Null (VNum 2) (VStr ''a'') RED 1 Null) (VNum 5) (VStr ''new'') BLACK 2 Null,
         stringRoot = Null,
         invertedIndex = [(''a'', [VNum 2]), (''old'', [VNum 5]), (''new'', [VNum 5])]\<rparr>
        VUndefined (VStr ''old'')
     = Inr (RArray [VNum 5])"
proof -
  let ?t = "\<lparr>numberRoot = Node Null (VNum 2) (VStr ''a'') BLACK 1 Null, stringRoot = Null,
            invertedIndex = [(''a'', [VNum 2])]\<rparr>"
  let ?t1 = "\<lparr>numberRoot =
              Node (Node Null (VNum 2) (VStr ''a'') RED 1 Null) (VNum 5) (VStr ''old'') BLACK 2 Null,
            stringRoot = Null,
            invertedIndex = [(''a'', [VNum 2]), (''old'', [VNum 5])]\<rparr>"
  let ?t2 = "\<lparr>numberRoot =
              Node (Node Null (VNum 2) (VStr ''a'') RED 1 Null) (VNum 5) (VStr ''new'') BLACK 2 Null,
            stringRoot = Null,
            invertedIndex = [(''a'', [VNum 2]), (''old'', [VNum 5]), (''new'', [VNum 5])]\<rparr>"
  have r: "run emptyTree [Put 1 (VNum 2) (VStr ''a'')] = Inr ?t" by code_simp
  have o: "ordered TNumber (Node Null (VNum 2) (VStr ''a'') BLACK 1 Null)"
    by (simp add: ordered_def keysOf_def)
  then have o': "ordered (typeof (VNum 5)) (treeOf ?t (VNum 5))"
    by (simp add: treeOf_def)
  have ty: "typeof (VNum 5) = TNumber \<or> typeof (VNum 5) = TString" by simp
  have ne: "VNum 5 \<noteq> VStr []" by simp
  have p1: "put 2 ?t (VNum 5) (VStr ''old'') = Inr ?t1" by code_simp
  have p2: "put 3 ?t1 (VNum 5) (VStr ''new'') = Inr ?t2" by code_simp
  have f: "find_rbt ?t2 VUndefined (VStr ''old'') = Inr (RArray [VNum 5])" by code_simp
  from put_twice_keeps_one_entry_and_both_associations[OF o' ty ne p1 p2] r o p1 p2 f
  show ?thesis by (auto simp: treeOf_def stored_def)
qed

text \<open>
  C4 as stated fails: after \<open>put(1, 10)\<close> and \<open>put(1, 20)\<close>, \<open>find({value: 10})\<close>
  still returns the key 1.
\<close>

theorem overwritten_value_still_lists_key:
  "run emptyTree [Put 1 (VNum 1) (VNum 10), Put 2 (VNum 1) (VNum 20)]
     = Inr \<lparr>numberRoot = Node Null (VNum 1) (VNum 20) BLACK 1 Null, stringRoot = Null,
            invertedIndex = [(''10'', [VNum 1]), (''20'', [VNum 1])]\<rparr>
   \<and> find_rbt
        \<lparr>numberRoot = Node Null (VNum 1) (VNum 20) BLACK 1 Null, stringRoot = Null,
         invertedIndex = [(''10'', [VNum 1]), (''20'', [VNum 1])]\<rparr>
        VUndefined (VNum 10)
     = Inr (RArray [VNum 1])"
  by code_simp

section \<open>remove of a null, absent or hidden key\<close>

text \<open>
  C8, as amended. \<open>remove(null)\<close> (and \<open>remove(undefined)\<close>) raises the error of an
  invalid key. \<open>remove(k)\<close> of a truthy key \<open>k\<close> that compares unequal to every
  key of the tree it is routed to returns \<open>false\<close> and leaves the table as it was.
\<close>

theorem remove_null_raises_absent_key_returns_false:
  "remove_rbt t VNull = Inl InvalidKey
   \<and> remove_rbt t VUndefined = Inl InvalidKey
   \<and> (truthy k \<and> absent k (treeOf t k) \<longrightarrow> remove_rbt t k = Inr (False, t))"
proof -
  have "remove_rbt t k = Inr (False, t)" if k: "truthy k" and a: "absent k (treeOf t k)"
  proof -
    have "findByKey t k VNull = Inr (RValue VNull)"
      using findIter_absent[OF a] by (auto simp: findByKey_def treeOf_def)
    then have "constains t k = Inr False"
      using k by (simp add: constains_def find_rbt_def)
    moreover have "\<not> isNullish k" using k by (cases k) auto
    ultimately show ?thesis by (simp add: remove_rbt_def)
  qed
  then show ?thesis by (simp add: remove_rbt_def)
qed

text \<open>The key 5 is absent from the table after \<open>put(2, 'a')\<close>.\<close>

theorem remove_null_raises_absent_key_returns_false_witness:
  "truthy (VNum 5)
   \<and> absent (VNum 5) (Node Null (VNum 2) (VStr ''a'') BLACK 1 Null)
   \<and> run emptyTree [Put 1 (VNum 2) (VStr ''a'')]
     = Inr \<lparr>numberRoot = Node Null (VNum 2) (VStr ''a'') BLACK 1 Null, stringRoot = Null,
            invertedIndex = [(''a'', [VNum 2])]\<rparr>
   \<and> remove_rbt
        \<lparr>numberRoot = Node Null (VNum 2) (VStr ''a'') BLACK 1 Null, stringRoot = Null,
         invertedIndex = [(''a'', [VNum 2])]\<rparr>
        (VNum 5)
     = Inr (False,
          \<lparr>numberRoot = Node Null (VNum 2) (VStr ''a'') BLACK 1 Null, stringRoot = Null,
           invertedIndex = [(''a'', [VNum 2])]\<rparr>)
   \<and> remove_rbt
        \<lparr>numberRoot = Node Null (VNum 2) (VStr ''a'') BLACK 1 Null, stringRoot = Null,
         invertedIndex = [(''a'', [VNum 2])]\<rparr>
        VNull
     = Inl InvalidKey"
proof -
  have k: "truthy (VNum 5)" by simp
  have a: "absent (VNum 5) (Node Null (VNum 2) (VStr ''a'') BLACK 1 Null)"
    by (simp add: absent_def keysOf_def)
  have r: "run emptyTree [Put 1 (VNum 2) (VStr ''a'')]
     = Inr \<lparr>numberRoot = Node Null (VNum 2) (VStr ''a'') BLACK 1 Null, stringRoot = Null,
            invertedIndex = [(''a'', [VNum 2])]\<rparr>"
    by code_simp
  from remove_null_raises_absent_key_returns_false[of
      "\<lparr>numberRoot = Node Null (VNum 2) (VStr ''a'') BLACK 1 Null, stringRoot = Null,
        invertedIndex = [(''a'', [VNum 2])]\<rparr>" "VNum 5"] k a r
  show ?thesis by (simp add: treeOf_def)
qed

text \<open>
  C8 as stated fails for a key that is not in the table and has the surrogate of one
  that is: in the table holding \<open>'abc'\<close> alone, \<open>remove('acb')\<close> returns
  \<open>true\<close>.
\<close>

theorem remove_of_colliding_key_returns_true:
  "run emptyTree [Put 1 (VStr ''abc'') (VNum 1)]
     = Inr \<lparr>numberRoot = Null,
            stringRoot = Node Null (VStr ''abc'') (VNum 1) BLACK 1 Null,
            invertedIndex = [(''1'', [VStr ''abc''])]\<rparr>
   \<and> VStr ''acb'' \<notin> set (keysOf (Node Null (VStr ''abc'') (VNum 1) BLACK 1 Null))
   \<and> remove_rbt
        \<lparr>numberRoot = Null,
         stringRoot = Node Null (VStr ''abc'') (VNum 1) BLACK 1 Null,
         invertedIndex = [(''1'', [VStr ''abc''])]\<rparr>
        (VStr ''acb'')
     = Inr (True,
          \<lparr>numberRoot = Null,
           stringRoot = Node Null (VStr ''abc'') (VNum 1) BLACK 1 Null,
           invertedIndex = [(''1'', [VStr ''abc''])]\<rparr>)"
  by code_simp

text \<open>
  C10, as amended. In a table in which the tree that a truthy key \<open>k\<close> is routed to
  is a search tree, if \<open>k\<close> is in that tree with a falsy value then \<open>constains(k)\<close>
  returns \<open>false\<close>, and \<open>remove(k)\<close> returns \<open>false\<close> and leaves both trees and
  the reverse index as they were.
\<close>

theorem falsy_value_hides_present_key:
  assumes "ordered (typeof k) (treeOf t k)"
    and "truthy k"
    and "(k, v) \<in> set (entries (treeOf t k))"
    and "\<not> truthy v"
  shows "constains t k = Inr False \<and> remove_rbt t k = Inr (False, t)"
proof -
  have ty: "typeof k = TNumber \<or> typeof k = TString"
    using assms(3) by (auto simp: treeOf_def split: if_splits)
  have "valueAt (entries (treeOf t k)) (rank k) = Some v"
    using ordered_sorted[OF assms(1)] assms(3) by (rule valueAt_present)
  then have "find_rbt t k VUndefined = Inr (RValue v)"
    using find_key_ordered[OF assms(1,2) ty] by simp
  then have c: "constains t k = Inr False"
    using assms(4) by (simp add: constains_def)
  moreover have "\<not> isNullish k" using assms(2) by (cases k) auto
  ultimately show ?thesis by (simp add: remove_rbt_def)
qed

text \<open>The key 1 holds the value 0 after \<open>put(1, 0)\<close>.\<close>

theorem falsy_value_hides_present_key_witness:
  "run emptyTree [Put 1 (VNum 1) (VNum 0)]
     = Inr \<lparr>numberRoot = Node Null (VNum 1) (VNum 0) BLACK 1 Null, stringRoot = Null,
            invertedIndex = [(''0'', [VNum 1])]\<rparr>
   \<and> ordered TNumber (Node Null (VNum 1) (VNum 0) BLACK 1 Null)
   \<and> (VNum 1, VNum 0) \<in> set (entries (Node Null (VNum 1) (VNum 0) BLACK 1 Null))
   \<and> constains
        \<lparr>numberRoot = Node Null (VNum 1) (VNum 0) BLACK 1 Null, stringRoot = Null,
         invertedIndex = [(''0'', [VNum 1])]\<rparr>
        (VNum 1)
     = Inr False
   \<and> remove_rbt
        \<lparr>numberRoot = Node Null (VNum 1) (VNum 0) BLACK 1 Null, stringRoot = Null,
         invertedIndex = [(''0'', [VNum 1])]\<rparr>
        (VNum 1)
     = Inr (False,
          \<lparr>numberRoot = Node Null (VNum 1) (VNum 0) BLACK 1 Null, stringRoot = Null,
           invertedIndex = [(''0'', [VNum 1])]\<rparr>)"
proof -
  have r: "run emptyTree [Put 1 (VNum 1) (VNum 0)]
     = Inr \<lparr>numberRoot = Node Null (VNum 1) (VNum 0) BLACK 1 Null, stringRoot = Null,
            invertedIndex = [(''0'', [VNum 1])]\<rparr>"
    by code_simp
  have o: "ordered TNumber (Node Null (VNum 1) (VNum 0) BLACK 1 Null)"
    by (simp add: ordered_def keysOf_def)
  then have o': "ordered (typeof (VNum 1)) (treeOf
      \<lparr>numberRoot = Node Null (VNum 1) (VNum 0) BLACK 1 Null, stringRoot = Null,
       invertedIndex = [(''0'', [VNum 1])]\<rparr> (VNum 1))"
    by (simp add: treeOf_def)
  have k: "truthy (VNum 1)" by simp
  have e: "(VNum 1, VNum 0) \<in> set (entries (treeOf
      \<lparr>numberRoot = Node Null (VNum 1) (VNum 0) BLACK 1 Null, stringRoot = Null,
       invertedIndex = [(''0'', [VNum 1])]\<rparr> (VNum 1)))"
    by (simp add: treeOf_def)
  have v: "\<not> truthy (VNum 0)" by simp
  from falsy_value_hides_present_key[OF o' k e v] r o e show ?thesis
    by (simp add: treeOf_def)
qed

text \<open>
  C10 as stated fails for the key 0 holding the falsy value 0: \<open>constains(0)\<close> and
  \<open>remove(0)\<close> raise "Key and value not found" instead of returning \<open>false\<close>.
\<close>

theorem constains_key_zero_raises:
  "run emptyTree [Put 1 (VNum 0) (VNum 0)]
     = Inr \<lparr>numberRoot = Node Null (VNum 0) (VNum 0) BLACK 1 Null, stringRoot = Null,
            invertedIndex = [(''0'', [VNum 0])]\<rparr>
   \<and> constains
        \<lparr>numberRoot = Node Null (VNum 0) (VNum 0) BLACK 1 Null, stringRoot = Null,
         invertedIndex = [(''0'', [VNum 0])]\<rparr>
        (VNum 0)
     = Inl KeyAndValueNotFound
   \<and> remove_rbt
        \<lparr>numberRoot = Node Null (VNum 0) (VNum 0) BLACK 1 Null, stringRoot = Null,
         invertedIndex = [(''0'', [VNum 0])]\<rparr>
        (VNum 0)
     = Inl KeyAndValueNotFound"
  by code_simp

end
